theory Spec2Isabelle
  imports Complex_Main
begin

section \<open>Values, errors and the store\<close>

text \<open>
  Scalars of the program are Python floats; they are modelled as \<^typ>\<open>real\<close>
  with exact arithmetic, so rounding, overflow and NaN are outside the model, except in
  the line search of the section on rounded arithmetic, where every sum, difference
  and quotient is rounded. One-dimensional NumPy arrays are
  lists, two-dimensional ones are lists of rows; arrays are values, only the interval
  list handed to the line search is an object of the store. Exceptions are values of
  \<open>error\<close>.
\<close>

datatype error = IndexError | ValueError | NotImplementedError

text \<open>
  A Python list is a mutable object. The store is the list of all list objects
  allocated so far, and a reference is a position in the store.
\<close>

type_synonym ref = nat
type_synonym heap = "real list list"

definition alloc :: "heap \<Rightarrow> real list \<Rightarrow> ref \<times> heap" where
  "alloc h xs = (length h, h @ [xs])"

text \<open>\<open>xs[i]\<close> for a non-negative index.\<close>

definition getitem :: "'a list \<Rightarrow> nat \<Rightarrow> error + 'a" where
  "getitem xs i = (if i < length xs then Inr (xs ! i) else Inl IndexError)"

text \<open>\<open>bound[i] = v\<close> on the list object behind \<open>bound\<close>.\<close>

definition setitem :: "heap \<Rightarrow> ref \<Rightarrow> nat \<Rightarrow> real \<Rightarrow> heap" where
  "setitem h bound i v = h[bound := (h ! bound)[i := v]]"

section \<open>Bisection line search\<close>

text \<open>
  The \<open>while\<close> loop of \<open>line_search_bisection\<close>. It is entered only after
  \<open>bound[0]\<close> and \<open>bound[1]\<close> have been read, so both reads succeed in the loop.
  A run that never leaves the loop is the value \<open>None\<close>.
\<close>

partial_function (option) bisection_while ::
  "(real \<Rightarrow> error + bool) \<Rightarrow> ref \<Rightarrow> real \<Rightarrow> heap \<Rightarrow> ((error + unit) \<times> heap) option"
where
  "bisection_while f bound accuracy h =
     (if (h ! bound) ! 1 - (h ! bound) ! 0 > accuracy then
        (let mean = ((h ! bound) ! 0 + (h ! bound) ! 1) / 2 in
         case f mean of
           Inl e \<Rightarrow> Some (Inl e, h)
         | Inr b \<Rightarrow>
             if b then bisection_while f bound accuracy (setitem h bound 0 mean)
             else bisection_while f bound accuracy (setitem h bound 1 mean))
      else Some (Inr (), h))"

text \<open>
  The result is \<open>None\<close> when the search does not return, otherwise the raised
  error or the returned value (Python's \<open>None\<close> is \<open>Inr None\<close>, the list object
  is \<open>Inr (Some bound)\<close>) with the store after the call.
\<close>

definition line_search_bisection ::
  "(real \<Rightarrow> error + bool) \<Rightarrow> ref \<Rightarrow> real \<Rightarrow> heap \<Rightarrow> ((error + ref option) \<times> heap) option"
where
  "line_search_bisection f bound accuracy h =
     (case getitem (h ! bound) 0 of
        Inl e \<Rightarrow> Some (Inl e, h)
      | Inr b0 \<Rightarrow>
         (case f b0 of
            Inl e \<Rightarrow> Some (Inl e, h)
          | Inr ok0 \<Rightarrow>
             if \<not> ok0 then Some (Inr None, h)
             else
              (case getitem (h ! bound) 1 of
                 Inl e \<Rightarrow> Some (Inl e, h)
               | Inr b1 \<Rightarrow>
                  (case f b1 of
                     Inl e \<Rightarrow> Some (Inl e, h)
                   | Inr ok1 \<Rightarrow>
                      if ok1 then Some (Inr (Some bound), setitem h bound 0 b1)
                      else
                       (case bisection_while f bound accuracy h of
                          None \<Rightarrow> None
                        | Some (Inl e, h') \<Rightarrow> Some (Inl e, h')
                        | Some (Inr u, h') \<Rightarrow> Some (Inr (Some bound), h'))))))"

section \<open>Bisection line search in rounded arithmetic\<close>







text \<open>
  \<open>line_search_bisection\<close> with the rounding of its arithmetic as a parameter
  \<open>rnd\<close>: the difference \<open>bound[1] - bound[0]\<close>, the sum \<open>bound[0] + bound[1]\<close> and
  its half are rounded, the comparisons are exact. With \<open>rnd = round_double\<close> this is
  the search on Python floats; with the identity it is the search in exact arithmetic
  of the previous section.
\<close>

partial_function (option) fp_bisection_while ::
  "(real \<Rightarrow> real) \<Rightarrow> (real \<Rightarrow> error + bool) \<Rightarrow> ref \<Rightarrow> real \<Rightarrow> heap
     \<Rightarrow> ((error + unit) \<times> heap) option"
where
  "fp_bisection_while rnd f bound accuracy h =
     (if rnd ((h ! bound) ! 1 - (h ! bound) ! 0) > accuracy then
        (let mean = rnd (rnd ((h ! bound) ! 0 + (h ! bound) ! 1) / 2) in
         case f mean of
           Inl e \<Rightarrow> Some (Inl e, h)
         | Inr b \<Rightarrow>
             if b then fp_bisection_while rnd f bound accuracy (setitem h bound 0 mean)
             else fp_bisection_while rnd f bound accuracy (setitem h bound 1 mean))
      else Some (Inr (), h))"

definition fp_line_search_bisection ::
  "(real \<Rightarrow> real) \<Rightarrow> (real \<Rightarrow> error + bool) \<Rightarrow> ref \<Rightarrow> real \<Rightarrow> heap
     \<Rightarrow> ((error + ref option) \<times> heap) option"
where
  "fp_line_search_bisection rnd f bound accuracy h =
     (case getitem (h ! bound) 0 of
        Inl e \<Rightarrow> Some (Inl e, h)
      | Inr b0 \<Rightarrow>
         (case f b0 of
            Inl e \<Rightarrow> Some (Inl e, h)
          | Inr ok0 \<Rightarrow>
             if \<not> ok0 then Some (Inr None, h)
             else
              (case getitem (h ! bound) 1 of
                 Inl e \<Rightarrow> Some (Inl e, h)
               | Inr b1 \<Rightarrow>
                  (case f b1 of
                     Inl e \<Rightarrow> Some (Inl e, h)
                   | Inr ok1 \<Rightarrow>
                      if ok1 then Some (Inr (Some bound), setitem h bound 0 b1)
                      else
                       (case fp_bisection_while rnd f bound accuracy h of
                          None \<Rightarrow> None
                        | Some (Inl e, h') \<Rightarrow> Some (Inl e, h')
                        | Some (Inr u, h') \<Rightarrow> Some (Inr (Some bound), h'))))))"

section \<open>NumPy operations used by the engine\<close>

text \<open>A value that is a scalar or a one-dimensional array.\<close>

datatype 'a nd = Scalar 'a | Vector "'a list"

text \<open>\<open>arr[mask]\<close>: a boolean index must have the length of the array.\<close>

definition mask_select :: "'a list \<Rightarrow> bool list \<Rightarrow> error + 'a list" where
  "mask_select arr msk =
     (if length msk = length arr then Inr (map fst (filter snd (zip arr msk)))
      else Inl IndexError)"

text \<open>\<open>np.max\<close> of a one-dimensional array; it raises on an empty one.\<close>

definition np_max :: "real list \<Rightarrow> error + real" where
  "np_max xs = (case xs of [] \<Rightarrow> Inl ValueError | x # rest \<Rightarrow> Inr (fold max rest x))"

text \<open>Element-wise binary operation on two one-dimensional arrays, with broadcasting.\<close>

definition vec_binop :: "('a \<Rightarrow> 'b \<Rightarrow> 'c) \<Rightarrow> 'a list \<Rightarrow> 'b list \<Rightarrow> error + 'c list" where
  "vec_binop g xs ys =
     (if length xs = length ys then Inr (map2 g xs ys)
      else if length xs = 1 then Inr (map (g (hd xs)) ys)
      else if length ys = 1 then Inr (map (\<lambda>x. g x (hd ys)) xs)
      else Inl ValueError)"

fun nd_binop :: "('a \<Rightarrow> 'b \<Rightarrow> 'c) \<Rightarrow> 'a nd \<Rightarrow> 'b nd \<Rightarrow> error + 'c nd" where
  "nd_binop g (Scalar a) (Scalar b) = Inr (Scalar (g a b))"
| "nd_binop g (Scalar a) (Vector ys) = Inr (Vector (map (g a) ys))"
| "nd_binop g (Vector xs) (Scalar b) = Inr (Vector (map (\<lambda>x. g x b) xs))"
| "nd_binop g (Vector xs) (Vector ys) =
     (case vec_binop g xs ys of Inl e \<Rightarrow> Inl e | Inr zs \<Rightarrow> Inr (Vector zs))"

fun nd_map :: "('a \<Rightarrow> 'b) \<Rightarrow> 'a nd \<Rightarrow> 'b nd" where
  "nd_map g (Scalar a) = Scalar (g a)"
| "nd_map g (Vector xs) = Vector (map g xs)"

text \<open>
  In-place operation \<open>xs op= y\<close> on a one-dimensional array: the right operand
  is broadcast to the shape of the left one, which cannot change.
\<close>

fun vec_iop :: "('a \<Rightarrow> 'b \<Rightarrow> 'a) \<Rightarrow> 'a list \<Rightarrow> 'b nd \<Rightarrow> error + 'a list" where
  "vec_iop g xs (Scalar b) = Inr (map (\<lambda>x. g x b) xs)"
| "vec_iop g xs (Vector ys) =
     (if length ys = length xs then Inr (map2 g xs ys)
      else if length ys = 1 then Inr (map (\<lambda>x. g x (hd ys)) xs)
      else Inl ValueError)"

text \<open>Comparison \<open>xs < t\<close> of a one-dimensional array with a scalar or an array.\<close>

fun vec_less :: "real list \<Rightarrow> real nd \<Rightarrow> error + bool list" where
  "vec_less xs (Scalar t) = Inr (map (\<lambda>x. x < t) xs)"
| "vec_less xs (Vector ts) = vec_binop (<) xs ts"

text \<open>\<open>m[:, 0]\<close> on a two-dimensional array given by its rows.\<close>

definition column0 :: "real list list \<Rightarrow> error + real list" where
  "column0 m = (if list_ex (\<lambda>row. row = []) m then Inl IndexError else Inr (map hd m))"

section \<open>The safety engine\<close>

text \<open>
  What the dynamics return: a plain array of next states, or a pair of a mean and
  per-dimension error bounds (a \<open>Sequence\<close> in the source).
\<close>

datatype prediction =
    Deterministic "real list list"
  | Uncertain "real list list" "real list list"

text \<open>
  The class of the engine object decides \<open>v_decrease_confidence\<close> and
  \<open>threshold\<close>: the base class raises, the discrete-time class computes them from
  its two Lipschitz constants, and \<open>Override\<close> stands for any other subclass (or a
  patched method), given by the two members it supplies.
\<close>

datatype kind =
    Base
  | Discrete (lipschitz_dynamics: "real nd") (lipschitz_lyapunov: "real nd")
  | Override "real list list \<Rightarrow> prediction \<Rightarrow> error + real list \<times> real nd" "error + real nd"

record lyapunov =
  discretization :: "real list list"
  policy :: "real list list"
  safe_set :: "bool list"
  v_dot_negative :: "bool list"
  initial_safe_set :: "bool list option"
  cmax :: real
  epsilon :: real
  dynamics :: "real list list \<Rightarrow> real list list \<Rightarrow> prediction"
  lyapunov_function :: "real list list \<Rightarrow> real list list"
  V :: "real list"
  cls :: kind

text \<open>\<open>LyapunovDiscrete.threshold\<close>: \<open>-lv * (1. + lf) * self.epsilon\<close>.\<close>

definition discrete_threshold :: "real nd \<Rightarrow> real nd \<Rightarrow> real \<Rightarrow> error + real nd" where
  "discrete_threshold lf lv eps =
     (case nd_binop (*) (nd_map uminus lv) (nd_map (\<lambda>x. 1 + x) lf) of
        Inl e \<Rightarrow> Inl e
      | Inr t \<Rightarrow> Inr (nd_map (\<lambda>x. x * eps) t))"

definition threshold :: "lyapunov \<Rightarrow> error + real nd" where
  "threshold self =
     (case cls self of
        Base \<Rightarrow> Inl NotImplementedError
      | Discrete lf lv \<Rightarrow> discrete_threshold lf lv (epsilon self)
      | Override conf thr \<Rightarrow> thr)"

text \<open>\<open>LyapunovDiscrete.v_decrease_confidence\<close>.\<close>

definition discrete_v_decrease_confidence ::
  "lyapunov \<Rightarrow> real nd \<Rightarrow> real list list \<Rightarrow> prediction \<Rightarrow> error + real list \<times> real nd"
where
  "discrete_v_decrease_confidence self lv states next_states =
     (let (next_mean, bound) =
            (case next_states of
               Uncertain next_mean error_bounds \<Rightarrow>
                 (next_mean, nd_binop (*) lv (Vector (map sum_list error_bounds)))
             | Deterministic next_mean \<Rightarrow> (next_mean, Inr (Scalar 0)))
      in case bound of
           Inl e \<Rightarrow> Inl e
         | Inr bound \<Rightarrow>
            (case column0 (lyapunov_function self next_mean) of
               Inl e \<Rightarrow> Inl e
             | Inr v_next \<Rightarrow>
                (case column0 (lyapunov_function self states) of
                   Inl e \<Rightarrow> Inl e
                 | Inr v_now \<Rightarrow>
                    (case vec_binop (-) v_next v_now of
                       Inl e \<Rightarrow> Inl e
                     | Inr v_decrease \<Rightarrow> Inr (v_decrease, bound)))))"

definition v_decrease_confidence ::
  "lyapunov \<Rightarrow> real list list \<Rightarrow> prediction \<Rightarrow> error + real list \<times> real nd"
where
  "v_decrease_confidence self states next_states =
     (case cls self of
        Base \<Rightarrow> Inl NotImplementedError
      | Discrete lf lv \<Rightarrow> discrete_v_decrease_confidence self lv states next_states
      | Override conf thr \<Rightarrow> conf states next_states)"

text \<open>
  \<open>v_decrease_bound\<close> adds the error to the mean in place, in the array that
  \<open>v_decrease_confidence\<close> returned. The engine keeps no reference to that array, so the
  sum is modelled as a value. All arrays hold floats: the casting error NumPy raises
  when a float error is added in place to an integer array has no counterpart here.
\<close>

definition v_decrease_bound :: "lyapunov \<Rightarrow> real list list \<Rightarrow> prediction \<Rightarrow> error + real list" where
  "v_decrease_bound self states next_states =
     (case v_decrease_confidence self states next_states of
        Inl e \<Rightarrow> Inl e
      | Inr (v_dot, v_dot_error) \<Rightarrow> vec_iop (+) v_dot v_dot_error)"

definition levelset_is_safe :: "lyapunov \<Rightarrow> real \<Rightarrow> error + bool" where
  "levelset_is_safe self c =
     (case mask_select (v_dot_negative self) (map (\<lambda>v. v \<le> c) (V self)) of
        Inl e \<Rightarrow> Inl e
      | Inr sel \<Rightarrow> Inr (list_all (\<lambda>b. b) sel))"

text \<open>
  \<open>interval\<close> is \<open>None\<close> or a reference to the caller's list. The default
  interval is a new list object.
\<close>

definition max_safe_levelset ::
  "lyapunov \<Rightarrow> real \<Rightarrow> ref option \<Rightarrow> heap \<Rightarrow> ((error + real) \<times> heap) option"
where
  "max_safe_levelset self accuracy interval h =
     (case (case interval of
              Some r \<Rightarrow> Inr (r, h)
            | None \<Rightarrow>
               (case np_max (V self) of
                  Inl e \<Rightarrow> Inl e
                | Inr m \<Rightarrow> Inr (alloc h [0, m + accuracy]))) of
        Inl e \<Rightarrow> Some (Inl e, h)
      | Inr (interval, h0) \<Rightarrow>
         (case line_search_bisection (levelset_is_safe self) interval accuracy h0 of
            None \<Rightarrow> None
          | Some (Inl e, h1) \<Rightarrow> Some (Inl e, h1)
          | Some (Inr None, h1) \<Rightarrow> Some (Inr 0, h1)
          | Some (Inr (Some bound), h1) \<Rightarrow>
             (case getitem (h1 ! bound) 0 of
                Inl e \<Rightarrow> Some (Inl e, h1)
              | Inr b0 \<Rightarrow>
                 (case np_max (filter (\<lambda>v. v \<le> b0) (V self)) of
                    Inl e \<Rightarrow> Some (Inl e, h1)
                  | Inr c \<Rightarrow> Some (Inr c, h1)))))"

definition safety_constraint :: "lyapunov \<Rightarrow> real list list \<Rightarrow> bool \<Rightarrow> error + bool list" where
  "safety_constraint self pol include_initial =
     (let prediction = dynamics self (discretization self) pol in
      case v_decrease_bound self (discretization self) prediction of
        Inl e \<Rightarrow> Inl e
      | Inr v_dot_bound \<Rightarrow>
         (case threshold self of
            Inl e \<Rightarrow> Inl e
          | Inr thr \<Rightarrow>
             (case vec_less v_dot_bound thr of
                Inl e \<Rightarrow> Inl e
              | Inr vdn \<Rightarrow>
                 (case initial_safe_set self of
                    Some init \<Rightarrow>
                      if include_initial then vec_iop (\<or>) vdn (Vector init) else Inr vdn
                  | None \<Rightarrow> Inr vdn))))"

text \<open>
  \<open>update_safe_set\<close> assigns three fields in turn; an exception leaves the fields
  assigned before it.
\<close>

definition update_safe_set ::
  "lyapunov \<Rightarrow> real \<Rightarrow> ref option \<Rightarrow> heap \<Rightarrow> ((error + unit) \<times> lyapunov \<times> heap) option"
where
  "update_safe_set self accuracy interval h =
     (case safety_constraint self (policy self) True of
        Inl e \<Rightarrow> Some (Inl e, self, h)
      | Inr vdn \<Rightarrow>
         (let self1 = self\<lparr>v_dot_negative := vdn\<rparr> in
          case max_safe_levelset self1 accuracy interval h of
            None \<Rightarrow> None
          | Some (Inl e, h1) \<Rightarrow> Some (Inl e, self1, h1)
          | Some (Inr c, h1) \<Rightarrow>
             (let self2 = self1\<lparr>cmax := c\<rparr> in
              Some (Inr (), self2\<lparr>safe_set := map (\<lambda>v. v \<le> cmax self2) (V self2)\<rparr>, h1))))"

section \<open>Smallest value on the boundary of a grid\<close>

text \<open>
  \<open>np.inf\<close> is the one non-finite float the boundary search starts from.
\<close>

datatype xreal = Finite real | PosInf

fun xmin :: "xreal \<Rightarrow> xreal \<Rightarrow> xreal" where
  "xmin PosInf y = y"
| "xmin x PosInf = x"
| "xmin (Finite a) (Finite b) = Finite (min a b)"

text \<open>\<open>tf.reduce_min\<close> over all entries; the minimum of no entries is \<open>inf\<close>.\<close>

definition reduce_min :: "real list \<Rightarrow> xreal" where
  "reduce_min xs = (case xs of [] \<Rightarrow> PosInf | x # rest \<Rightarrow> Finite (fold min rest x))"

text \<open>
  Modelled from the spec: the grid class \<open>GridWorld\<close>, of which
  \<open>smallest_boundary_value\<close> reads the number of axes \<open>ndim\<close> and the per-axis
  sample arrays \<open>discrete_points\<close>.
\<close>

record grid_world =
  ndim :: nat
  discrete_points :: "real list list"

text \<open>
  Modelled from the spec: the constructor \<open>GridWorld(limits, num_points)\<close>, a grid
  spanning the given limits with the given number of evenly spaced samples per axis.
\<close>

definition linspace :: "real \<Rightarrow> real \<Rightarrow> nat \<Rightarrow> real list" where
  "linspace a b n = map (\<lambda>k. a + real k * ((b - a) / real (n - 1))) [0..<n]"

definition GridWorld :: "(real \<times> real) list \<Rightarrow> nat list \<Rightarrow> grid_world" where
  "GridWorld limits num_points =
     \<lparr>ndim = length limits,
      discrete_points = map2 (\<lambda>(a, b) n. linspace a b n) limits num_points\<rparr>"

text \<open>
  The body of the loop over the axes, run on the axes still to visit.
  \<open>np.meshgrid(*tmp, indexing='ij')\<close> followed by \<open>ravel\<close> and
  \<open>np.column_stack\<close> lists the points of the product of the axes in \<open>tmp\<close>,
  the first axis varying slowest. The function is applied to the whole batch; the
  \<open>feed_dict\<close> handed to the evaluation does not enter the result and is left out.
\<close>

fun boundary_loop ::
  "(real list list \<Rightarrow> real list) \<Rightarrow> grid_world \<Rightarrow> nat list \<Rightarrow> xreal \<Rightarrow> error + xreal"
where
  "boundary_loop func d [] min_value = Inr min_value"
| "boundary_loop func d (i # axes) min_value =
     (if i < length (discrete_points d) \<and> discrete_points d ! i \<noteq> [] then
        (let tmp = (discrete_points d)
                     [i := [hd (discrete_points d ! i), last (discrete_points d ! i)]];
             all_points = product_lists tmp;
             smallest = reduce_min (func all_points)
         in boundary_loop func d axes (xmin min_value smallest))
      else Inl IndexError)"

definition smallest_boundary_value ::
  "(real list list \<Rightarrow> real list) \<Rightarrow> grid_world \<Rightarrow> error + xreal" where
  "smallest_boundary_value func d = boundary_loop func d [0..<ndim d] PosInf"

section \<open>Examples used as concrete inputs\<close>

text \<open>
  The engine of the test suite: the base class on the grid \<open>{0, 1, 2, 3}\<close> with
  \<open>V = |x|\<close> and dynamics that return zero, with \<open>v_dot_negative\<close> set by hand.
\<close>

definition test_engine :: "bool list \<Rightarrow> lyapunov" where
  "test_engine vdn =
     \<lparr>discretization = [[0], [1], [2], [3]], policy = [[], [], [], []],
      safe_set = [False, False, False, False],
      v_dot_negative = vdn, initial_safe_set = None, cmax = 0, epsilon = 1,
      dynamics = (\<lambda>states pol. Deterministic (map (map (\<lambda>x. 0)) states)),
      lyapunov_function = map (map abs), V = [0, 1, 2, 3],
      cls = Base\<rparr>"

text \<open>
  The engine of the update test: \<open>v_decrease_confidence\<close> and \<open>threshold\<close> are
  patched to return the means \<open>[-0.5, -0.2, 0, -1]\<close> with error \<open>0\<close> and
  \<open>-0.15\<close>.
\<close>

definition update_test_engine :: "bool list option \<Rightarrow> lyapunov" where
  "update_test_engine init =
     (test_engine [False, False, False, False])
       \<lparr>initial_safe_set := init,
        cls := Override (\<lambda>states next_states. Inr ([-1/2, -1/5, 0, -1], Scalar 0))
                        (Inr (Scalar (-3/20)))\<rparr>"

text \<open>
  The engine of the discrete-time test: a Lyapunov function that returns the column
  \<open>[0, 1, 2]\<close>, with \<open>lipschitz_dynamics = 0.4\<close>, \<open>lipschitz_lyapunov = 0.3\<close>
  and \<open>epsilon = 0.5\<close>.
\<close>

definition discrete_test_engine :: lyapunov where
  "discrete_test_engine =
     \<lparr>discretization = [[1], [2], [3]], policy = [[], [], []],
      safe_set = [False, False, False],
      v_dot_negative = [False, False, False], initial_safe_set = None, cmax = 0,
      epsilon = 1/2,
      dynamics = (\<lambda>states pol. Deterministic states),
      lyapunov_function = (\<lambda>states. [[0], [1], [2]]), V = [0, 1, 2],
      cls = Discrete (Scalar (2/5)) (Scalar (3/10))\<rparr>"

text \<open>
  A discrete-time engine on the two-point grid \<open>{0, 1}\<close> with \<open>V = |x|\<close>, dynamics
  that stay in place, and Lipschitz constants and \<open>epsilon\<close> all equal to one.
\<close>

definition two_point_engine :: lyapunov where
  "two_point_engine =
     \<lparr>discretization = [[0], [1]], policy = [[], []], safe_set = [False, False],
      v_dot_negative = [False, False], initial_safe_set = None, cmax = 0, epsilon = 1,
      dynamics = (\<lambda>states pol. Deterministic states),
      lyapunov_function = map (map abs), V = [0, 1],
      cls = Discrete (Scalar 1) (Scalar 1)\<rparr>"

text \<open>
  A patched engine on the grid of the test suite with an initial safe set: the means
  are \<open>[-0.5, 0, -0.2, 0]\<close>, the threshold is \<open>-0.15\<close>, and the point \<open>1\<close>, whose
  mean fails the comparison, is in the initial safe set.
\<close>

definition initial_set_engine :: lyapunov where
  "initial_set_engine =
     (test_engine [False, False, False, False])
       \<lparr>initial_safe_set := Some [False, True, False, False],
        cls := Override (\<lambda>states next_states. Inr ([-1/2, 0, -1/5, 0], Scalar 0))
                        (Inr (Scalar (-3/20)))\<rparr>"

section \<open>The line search in exact arithmetic\<close>

lemma setitem_0: "bound < length h \<Longrightarrow> h ! bound = lo # hi # rest \<Longrightarrow>
  setitem h bound 0 v = h[bound := v # hi # rest]"
  by (simp add: setitem_def)

lemma setitem_1: "bound < length h \<Longrightarrow> h ! bound = lo # hi # rest \<Longrightarrow>
  setitem h bound (Suc 0) v = h[bound := lo # v # rest]"
  by (simp add: setitem_def)

lemma bisection_while_pure:
  assumes "0 < accuracy" "bound < length h" "h ! bound = lo # hi # rest"
    and "hi - lo \<le> accuracy * 2 ^ n" "p lo" "\<not> p hi"
  shows "\<exists>lo' hi' k. bisection_while (\<lambda>x. Inr (p x)) bound accuracy h
            = Some (Inr (), h[bound := lo' # hi' # rest])
          \<and> p lo' \<and> \<not> p hi' \<and> hi' - lo' \<le> accuracy \<and> hi' - lo' = (hi - lo) / 2 ^ k
          \<and> (lo \<le> hi \<longrightarrow> lo \<le> lo' \<and> lo' \<le> hi' \<and> hi' \<le> hi)"
  using assms
proof (induction n arbitrary: h lo hi)
  case 0
  then have "\<not> accuracy < hi - lo" by simp
  then have "bisection_while (\<lambda>x. Inr (p x)) bound accuracy h = Some (Inr (), h)"
    using 0 by (subst bisection_while.simps) simp
  moreover have "h[bound := lo # hi # rest] = h" using 0 by (metis list_update_id)
  ultimately show ?case using 0 \<open>\<not> accuracy < hi - lo\<close>
    by (intro exI[of _ lo] exI[of _ hi] exI[of _ 0]) simp
next
  case (Suc n)
  show ?case
  proof (cases "accuracy < hi - lo")
    case False
    then have "bisection_while (\<lambda>x. Inr (p x)) bound accuracy h = Some (Inr (), h)"
      using Suc.prems by (subst bisection_while.simps) simp
    moreover have "h[bound := lo # hi # rest] = h" using Suc.prems by (metis list_update_id)
    ultimately show ?thesis using Suc.prems False
      by (intro exI[of _ lo] exI[of _ hi] exI[of _ 0]) simp
  next
    case True
    define m where "m = (lo + hi) / 2"
    have lt: "lo < hi" using True Suc.prems(1) by linarith
    show ?thesis
    proof (cases "p m")
      case pm: True
      let ?h = "h[bound := m # hi # rest]"
      have step: "bisection_while (\<lambda>x. Inr (p x)) bound accuracy h
                  = bisection_while (\<lambda>x. Inr (p x)) bound accuracy ?h"
        using True pm Suc.prems(2,3)
        by (subst bisection_while.simps) (simp add: m_def setitem_0 Let_def)
      have w: "hi - m \<le> accuracy * 2 ^ n" using Suc.prems(4) by (simp add: m_def field_simps)
      from Suc.IH[of ?h m hi, OF Suc.prems(1) _ _ w pm Suc.prems(6)] Suc.prems(2)
      obtain lo' hi' k where r:
        "bisection_while (\<lambda>x. Inr (p x)) bound accuracy ?h = Some (Inr (), ?h[bound := lo' # hi' # rest])"
        "p lo'" "\<not> p hi'" "hi' - lo' \<le> accuracy" "hi' - lo' = (hi - m) / 2 ^ k"
        "m \<le> hi \<longrightarrow> m \<le> lo' \<and> lo' \<le> hi' \<and> hi' \<le> hi"
        by auto
      have "hi' - lo' = (hi - lo) / 2 ^ Suc k" using r(5) by (simp add: m_def field_simps)
      moreover have "lo \<le> lo' \<and> lo' \<le> hi' \<and> hi' \<le> hi" using r(6) lt by (simp add: m_def)
      ultimately show ?thesis using r(1-4) step
        by (intro exI[of _ lo'] exI[of _ hi'] exI[of _ "Suc k"]) simp
    next
      case pm: False
      let ?h = "h[bound := lo # m # rest]"
      have step: "bisection_while (\<lambda>x. Inr (p x)) bound accuracy h
                  = bisection_while (\<lambda>x. Inr (p x)) bound accuracy ?h"
        using True pm Suc.prems(2,3)
        by (subst bisection_while.simps) (simp add: m_def setitem_1 Let_def)
      have w: "m - lo \<le> accuracy * 2 ^ n" using Suc.prems(4) by (simp add: m_def field_simps)
      from Suc.IH[of ?h lo m, OF Suc.prems(1) _ _ w Suc.prems(5) pm] Suc.prems(2)
      obtain lo' hi' k where r:
        "bisection_while (\<lambda>x. Inr (p x)) bound accuracy ?h = Some (Inr (), ?h[bound := lo' # hi' # rest])"
        "p lo'" "\<not> p hi'" "hi' - lo' \<le> accuracy" "hi' - lo' = (m - lo) / 2 ^ k"
        "lo \<le> m \<longrightarrow> lo \<le> lo' \<and> lo' \<le> hi' \<and> hi' \<le> m"
        by auto
      have "hi' - lo' = (hi - lo) / 2 ^ Suc k" using r(5) by (simp add: m_def field_simps)
      moreover have "lo \<le> lo' \<and> lo' \<le> hi' \<and> hi' \<le> hi" using r(6) lt by (simp add: m_def)
      ultimately show ?thesis using r(1-4) step
        by (intro exI[of _ lo'] exI[of _ hi'] exI[of _ "Suc k"]) simp
    qed
  qed
qed

lemma halvings_exist:
  fixes w accuracy :: real
  assumes "0 < accuracy"
  shows "\<exists>n. w \<le> accuracy * 2 ^ n"
proof -
  obtain n where "w / accuracy < 2 ^ n" using real_arch_pow[of 2 "w / accuracy"] by auto
  then have "w < accuracy * 2 ^ n" using assms by (simp add: field_simps)
  then show ?thesis by (intro exI[of _ n]) simp
qed


lemma lsb_infeasible:
  assumes "h ! bound = lo # rest" "f lo = Inr False"
  shows "line_search_bisection f bound accuracy h = Some (Inr None, h)"
  using assms by (simp add: line_search_bisection_def getitem_def)

lemma lsb_collapsed:
  assumes "bound < length h" "h ! bound = lo # hi # rest" "f lo = Inr True" "f hi = Inr True"
  shows "line_search_bisection f bound accuracy h
           = Some (Inr (Some bound), h[bound := hi # hi # rest])"
  using assms by (simp add: line_search_bisection_def getitem_def setitem_0)

lemma lsb_refined:
  assumes "0 < accuracy" "bound < length h" "h ! bound = lo # hi # rest" "p lo" "\<not> p hi"
  shows "\<exists>lo' hi' k. line_search_bisection (\<lambda>x. Inr (p x)) bound accuracy h
            = Some (Inr (Some bound), h[bound := lo' # hi' # rest])
          \<and> p lo' \<and> \<not> p hi' \<and> hi' - lo' \<le> accuracy \<and> hi' - lo' = (hi - lo) / 2 ^ k
          \<and> (lo \<le> hi \<longrightarrow> lo \<le> lo' \<and> lo' \<le> hi' \<and> hi' \<le> hi)"
proof -
  obtain n where n: "hi - lo \<le> accuracy * 2 ^ n"
    using halvings_exist[OF assms(1)] by blast
  from bisection_while_pure[OF assms(1,2,3) n assms(4,5)]
  obtain lo' hi' k where r:
    "bisection_while (\<lambda>x. Inr (p x)) bound accuracy h = Some (Inr (), h[bound := lo' # hi' # rest])"
    "p lo'" "\<not> p hi'" "hi' - lo' \<le> accuracy" "hi' - lo' = (hi - lo) / 2 ^ k"
    "lo \<le> hi \<longrightarrow> lo \<le> lo' \<and> lo' \<le> hi' \<and> hi' \<le> hi"
    by blast
  have "line_search_bisection (\<lambda>x. Inr (p x)) bound accuracy h
            = Some (Inr (Some bound), h[bound := lo' # hi' # rest])"
    using assms(3,4,5) r(1) by (simp add: line_search_bisection_def getitem_def)
  with r(2-6) show ?thesis by blast
qed

lemma test_line_search:
  "line_search_bisection (\<lambda>x. Inr (x < 1/2)) 0 (1/4) [[0, 1]]
     = Some (Inr (Some 0), [[1/4, 1/2]])"
  "line_search_bisection (\<lambda>x. Inr (x < 1/2)) 0 (1/100000) [[1, 2]]
     = Some (Inr None, [[1, 2]])"
  "line_search_bisection (\<lambda>x. Inr (x < 1/2)) 0 (1/100000) [[0, 2/5]]
     = Some (Inr (Some 0), [[2/5, 2/5]])"
  by (simp_all add: line_search_bisection_def getitem_def setitem_def bisection_while.simps)

section \<open>The line search in rounded arithmetic\<close>

lemma fp_bisection_while_invariant_aux:
  assumes "fp_bisection_while rnd f bound accuracy h = Some y"
  shows "\<forall>lo hi. f = (\<lambda>x. Inr (p x)) \<and> bound < length h \<and> h ! bound = lo # hi # rest
                  \<and> p lo \<and> \<not> p hi
           \<longrightarrow> (\<exists>lo' hi'. y = (Inr (), h[bound := lo' # hi' # rest])
                   \<and> p lo' \<and> \<not> p hi' \<and> \<not> accuracy < rnd (hi' - lo'))"
proof (rule fp_bisection_while.raw_induct
    [where P = "\<lambda>rnd f bound accuracy h y.
       \<forall>lo hi. f = (\<lambda>x. Inr (p x)) \<and> bound < length h \<and> h ! bound = lo # hi # rest
                  \<and> p lo \<and> \<not> p hi
           \<longrightarrow> (\<exists>lo' hi'. y = (Inr (), h[bound := lo' # hi' # rest])
                   \<and> p lo' \<and> \<not> p hi' \<and> \<not> accuracy < rnd (hi' - lo'))",
     OF _ assms], goal_cases)
  case (1 loop rnd f bound accuracy h y)
  show ?case
  proof (intro allI impI, elim conjE)
    fix lo hi
    assume f: "f = (\<lambda>x. Inr (p x))" and b: "bound < length h"
      and hb: "h ! bound = lo # hi # rest" and plo: "p lo" and phi: "\<not> p hi"
    show "\<exists>lo' hi'. y = (Inr (), h[bound := lo' # hi' # rest])
                   \<and> p lo' \<and> \<not> p hi' \<and> \<not> accuracy < rnd (hi' - lo')"
    proof (cases "accuracy < rnd (hi - lo)")
      case False
      with 1(2) hb have "y = (Inr (), h)" by simp
      moreover have "h[bound := lo # hi # rest] = h" using hb by (metis list_update_id)
      ultimately show ?thesis using False plo phi
        by (intro exI[of _ lo] exI[of _ hi]) simp
    next
      case True
      define m where "m = rnd (rnd (lo + hi) / 2)"
      show ?thesis
      proof (cases "p m")
        case pm: True
        let ?h = "h[bound := m # hi # rest]"
        have call: "loop rnd f bound accuracy ?h = Some y"
          using 1(2) b True pm hb f by (simp add: m_def Let_def setitem_def)
        from 1(1)[OF call, rule_format, of m hi] f b pm phi
        obtain lo' hi' where "y = (Inr (), ?h[bound := lo' # hi' # rest])"
          "p lo'" "\<not> p hi'" "\<not> accuracy < rnd (hi' - lo')"
          by auto
        then show ?thesis by auto
      next
        case pm: False
        let ?h = "h[bound := lo # m # rest]"
        have call: "loop rnd f bound accuracy ?h = Some y"
          using 1(2) b True pm hb f by (simp add: m_def Let_def setitem_def)
        from 1(1)[OF call, rule_format, of lo m] f b pm plo
        obtain lo' hi' where "y = (Inr (), ?h[bound := lo' # hi' # rest])"
          "p lo'" "\<not> p hi'" "\<not> accuracy < rnd (hi' - lo')"
          by auto
        then show ?thesis by auto
      qed
    qed
  qed
qed

lemma fp_bisection_while_invariant:
  assumes "fp_bisection_while rnd (\<lambda>x. Inr (p x)) bound accuracy h = Some y"
    and "bound < length h" and "h ! bound = lo # hi # rest" and "p lo" and "\<not> p hi"
  shows "\<exists>lo' hi'. y = (Inr (), h[bound := lo' # hi' # rest])
           \<and> p lo' \<and> \<not> p hi' \<and> \<not> accuracy < rnd (hi' - lo')"
  using fp_bisection_while_invariant_aux[OF assms(1), of p rest] assms(2-5) by blast


lemma bisection_while_exact:
  "bisection_while f bound accuracy h = fp_bisection_while (\<lambda>x. x) f bound accuracy h"
proof -
  have a: "fp_bisection_while (\<lambda>x. x) f bound accuracy h = Some y"
    if run: "bisection_while f bound accuracy h = Some y" for y
  proof (rule bisection_while.raw_induct
      [where P = "\<lambda>f bound accuracy h y.
         fp_bisection_while (\<lambda>x. x) f bound accuracy h = Some y", OF _ run], goal_cases)
    case (1 loop f bound accuracy h y)
    from 1(2) show ?case
      by (subst fp_bisection_while.simps)
         (auto simp: Let_def split: if_splits sum.splits intro: 1(1))
  qed
  have b: "bisection_while f bound accuracy h = Some y"
    if run: "fp_bisection_while (\<lambda>x. x) f bound accuracy h = Some y" for y
  proof -
    have "rnd = (\<lambda>x. x) \<longrightarrow> bisection_while f bound accuracy h = Some y"
      if run': "fp_bisection_while rnd f bound accuracy h = Some y" for rnd
    proof (rule fp_bisection_while.raw_induct
      [where P = "\<lambda>rnd f bound accuracy h y.
         rnd = (\<lambda>x. x) \<longrightarrow> bisection_while f bound accuracy h = Some y", OF _ run'],
        goal_cases)
      case (1 loop rnd f bound accuracy h y)
      show ?case
      proof
        assume r: "rnd = (\<lambda>x. x)"
        from 1(2) show "bisection_while f bound accuracy h = Some y"
          unfolding r
          by (subst bisection_while.simps)
             (auto simp: Let_def split: if_splits sum.splits dest: 1(1)[unfolded r])
      qed
    qed
    from this[OF run] show ?thesis by simp
  qed
  show ?thesis
  proof (cases "bisection_while f bound accuracy h")
    case None
    then show ?thesis using b by (metis not_Some_eq)
  next
    case (Some y)
    then show ?thesis using a by simp
  qed
qed

lemma line_search_bisection_exact:
  "line_search_bisection f bound accuracy h
     = fp_line_search_bisection (\<lambda>x. x) f bound accuracy h"
  unfolding line_search_bisection_def fp_line_search_bisection_def bisection_while_exact
  by (rule refl)



lemma fp_lsb_refined:
  assumes "fp_line_search_bisection rnd (\<lambda>x. Inr (p x)) bound accuracy h = Some (res, h')"
    and "bound < length h" and "h ! bound = lo # hi # rest" and "p lo" and "\<not> p hi"
  shows "\<exists>lo' hi'. res = Inr (Some bound) \<and> h' = h[bound := lo' # hi' # rest]
           \<and> p lo' \<and> \<not> p hi' \<and> rnd (hi' - lo') \<le> accuracy"
proof -
  from assms(1,3,4,5) obtain y where
    y: "fp_bisection_while rnd (\<lambda>x. Inr (p x)) bound accuracy h = Some y"
    by (auto simp: fp_line_search_bisection_def getitem_def split: option.splits)
  from fp_bisection_while_invariant[OF y assms(2,3,4,5)]
  obtain lo' hi' where "y = (Inr (), h[bound := lo' # hi' # rest])"
    "p lo'" "\<not> p hi'" "\<not> accuracy < rnd (hi' - lo')"
    by blast
  with assms(1,3,4,5) y show ?thesis
    by (intro exI[of _ lo'] exI[of _ hi'])
       (auto simp: fp_line_search_bisection_def getitem_def)
qed






section \<open>The level-set predicate and the largest safe level set\<close>

lemma list_all_mask:
  assumes "length bs = length vs"
  shows "list_all (\<lambda>b. b) (map fst (filter snd (zip bs (map q vs))))
           \<longleftrightarrow> (\<forall>i<length vs. q (vs ! i) \<longrightarrow> bs ! i)"
  using assms
proof (induction bs vs rule: list_induct2)
  case Nil
  then show ?case by simp
next
  case (Cons b bs v vs)
  then show ?case by (auto simp: less_Suc_eq_0_disj)
qed

lemma levelset_is_safe_eq:
  "levelset_is_safe self c =
     (if length (V self) = length (v_dot_negative self)
      then Inr (\<forall>i<length (V self). V self ! i \<le> c \<longrightarrow> v_dot_negative self ! i)
      else Inl IndexError)"
  by (simp add: levelset_is_safe_def mask_select_def list_all_mask)

lemma levelset_is_safe_mono_aux:
  assumes "c1 \<le> c2" and "levelset_is_safe self c2 = Inr True"
  shows "levelset_is_safe self c1 = Inr True"
proof -
  from assms(2) have len: "length (V self) = length (v_dot_negative self)"
    by (simp add: levelset_is_safe_eq split: if_splits)
  from assms(2) len have "\<forall>i<length (V self). V self ! i \<le> c2 \<longrightarrow> v_dot_negative self ! i"
    by (simp add: levelset_is_safe_eq)
  with assms(1) have "\<forall>i<length (V self). V self ! i \<le> c1 \<longrightarrow> v_dot_negative self ! i"
    by (meson order_trans)
  with len show ?thesis by (simp add: levelset_is_safe_eq)
qed

text \<open>
  C4. The level-set predicate is monotone: with \<open>V\<close> and \<open>v_dot_negative\<close> fixed,
  if \<open>_levelset_is_safe(c2)\<close> is true and \<open>c1 \<le> c2\<close> then
  \<open>_levelset_is_safe(c1)\<close> is true.
\<close>

theorem levelset_is_safe_monotone:
  assumes "c1 \<le> c2" and "levelset_is_safe self c2 = Inr True"
  shows "levelset_is_safe self c1 = Inr True"
  using assms by (rule levelset_is_safe_mono_aux)

lemma test_levelset_is_safe:
  "levelset_is_safe (test_engine [True, False, False, False]) (1/2) = Inr True"
  "levelset_is_safe (test_engine [True, False, False, False]) (11/10) = Inr False"
  by (simp_all add: levelset_is_safe_def mask_select_def test_engine_def)

theorem levelset_is_safe_monotone_witness:
  "(1/2::real) \<le> 1 \<and> levelset_is_safe (test_engine [True, True, False, False]) (1/2) = Inr True"
  using levelset_is_safe_monotone[of "1/2" 1 "test_engine [True, True, False, False]"]
  by (simp add: levelset_is_safe_def mask_select_def test_engine_def)

lemma np_max_Nil: "np_max [] = Inl ValueError"
  by (simp add: np_max_def)

lemma np_max_Max:
  assumes "xs \<noteq> []"
  shows "np_max xs = Inr (Max (set xs))"
proof (cases xs)
  case Nil
  then show ?thesis using assms by simp
next
  case (Cons x rest)
  then show ?thesis using Max.set_eq_fold[of x rest] by (simp add: np_max_def)
qed



lemma levelset_is_safe_pure:
  assumes "length (V self) = length (v_dot_negative self)"
  shows "levelset_is_safe self
           = (\<lambda>c. Inr (\<forall>i<length (V self). V self ! i \<le> c \<longrightarrow> v_dot_negative self ! i))"
  using assms by (intro ext) (simp add: levelset_is_safe_eq)

lemma max_safe_levelset_default:
  assumes "V self \<noteq> []"
  shows "max_safe_levelset self accuracy None h
           = max_safe_levelset self accuracy (Some (length h))
               (h @ [[0, Max (set (V self)) + accuracy]])"
  using assms by (simp add: max_safe_levelset_def np_max_Max alloc_def)

lemma max_safe_levelset_infeasible:
  assumes "h ! r = lo # rest" "levelset_is_safe self lo = Inr False"
  shows "max_safe_levelset self accuracy (Some r) h = Some (Inr 0, h)"
  using lsb_infeasible[of h r lo rest "levelset_is_safe self" accuracy] assms
  by (simp add: max_safe_levelset_def)

lemma max_safe_levelset_feasible:
  assumes "0 < accuracy" "r < length h" "h ! r = lo # hi # rest"
    and "levelset_is_safe self lo = Inr True"
  shows "\<exists>lo' hi'.
           line_search_bisection (levelset_is_safe self) r accuracy h
             = Some (Inr (Some r), h[r := lo' # hi' # rest])
         \<and> max_safe_levelset self accuracy (Some r) h
             = Some (np_max (filter (\<lambda>v. v \<le> lo') (V self)), h[r := lo' # hi' # rest])
         \<and> levelset_is_safe self lo' = Inr True
         \<and> (levelset_is_safe self hi = Inr True \<and> lo' = hi \<and> hi' = hi
            \<or> levelset_is_safe self hi = Inr False \<and> levelset_is_safe self hi' = Inr False
              \<and> hi' - lo' \<le> accuracy \<and> (\<exists>k. hi' - lo' = (hi - lo) / 2 ^ k)
              \<and> (lo \<le> hi \<longrightarrow> lo \<le> lo' \<and> lo' \<le> hi' \<and> hi' \<le> hi))"
proof -
  from assms(4) have len: "length (V self) = length (v_dot_negative self)"
    by (simp add: levelset_is_safe_eq split: if_splits)
  define p where "p = (\<lambda>c. \<forall>i<length (V self). V self ! i \<le> c \<longrightarrow> v_dot_negative self ! i)"
  have f: "levelset_is_safe self = (\<lambda>c. Inr (p c))"
    unfolding p_def by (rule levelset_is_safe_pure[OF len])
  have plo: "p lo" using assms(4) by (simp add: f)
  have finish: "max_safe_levelset self accuracy (Some r) h
             = Some (np_max (filter (\<lambda>v. v \<le> a) (V self)), h[r := a # b # rest])"
    if "line_search_bisection (levelset_is_safe self) r accuracy h
             = Some (Inr (Some r), h[r := a # b # rest])" for a b
    using that assms(2)
    by (simp add: max_safe_levelset_def getitem_def split: sum.splits)
  show ?thesis
  proof (cases "p hi")
    case True
    have "line_search_bisection (levelset_is_safe self) r accuracy h
             = Some (Inr (Some r), h[r := hi # hi # rest])"
      using assms(2,3) plo True by (intro lsb_collapsed[of _ _ lo]) (simp_all add: f)
    with finish[OF this] True show ?thesis by (simp add: f)
  next
    case False
    from lsb_refined[OF assms(1,2,3) plo False]
    obtain lo' hi' k where r:
      "line_search_bisection (\<lambda>x. Inr (p x)) r accuracy h
            = Some (Inr (Some r), h[r := lo' # hi' # rest])"
      "p lo'" "\<not> p hi'" "hi' - lo' \<le> accuracy" "hi' - lo' = (hi - lo) / 2 ^ k"
      "lo \<le> hi \<longrightarrow> lo \<le> lo' \<and> lo' \<le> hi' \<and> hi' \<le> hi"
      by blast
    from r(1) have "line_search_bisection (levelset_is_safe self) r accuracy h
            = Some (Inr (Some r), h[r := lo' # hi' # rest])"
      by (simp add: f)
    with finish[OF this] r(2-6) False show ?thesis
      unfolding f by (intro exI[of _ lo'] exI[of _ hi']) auto
  qed
qed

lemma np_max_Inr:
  assumes "np_max xs = Inr c"
  shows "c \<in> set xs" and "\<forall>x\<in>set xs. x \<le> c"
proof -
  from assms have ne: "xs \<noteq> []" by (auto simp: np_max_Nil)
  then have c: "c = Max (set xs)" using assms by (simp add: np_max_Max)
  have "set xs \<noteq> {}" using ne by simp
  then show "c \<in> set xs" unfolding c by (intro Max_in) simp_all
  show "\<forall>x\<in>set xs. x \<le> c" unfolding c by simp
qed

lemma np_max_filter_safe:
  assumes "np_max (filter (\<lambda>v. v \<le> b) (V self)) = Inr c"
    and "levelset_is_safe self b = Inr True"
  shows "levelset_is_safe self c = Inr True" and "c \<in> set (V self)" and "c \<le> b"
proof -
  from np_max_Inr(1)[OF assms(1)] show "c \<in> set (V self)" and cb: "c \<le> b" by simp_all
  show "levelset_is_safe self c = Inr True"
    by (rule levelset_is_safe_mono_aux[OF cb assms(2)])
qed

lemma max_safe_levelset_safe_aux:
  assumes "0 < accuracy"
    and "case interval of None \<Rightarrow> lo = 0
         | Some r \<Rightarrow> r < length h \<and> getitem (h ! r) 0 = Inr lo"
    and "levelset_is_safe self lo = Inr True"
    and "max_safe_levelset self accuracy interval h = Some (Inr c, h')"
  shows "length (v_dot_negative self) = length (V self)
       \<and> (\<forall>i<length (V self). V self ! i \<le> c \<longrightarrow> v_dot_negative self ! i)
       \<and> levelset_is_safe self c = Inr True \<and> c \<in> set (V self)"
proof -
  have explicit: "levelset_is_safe self c = Inr True \<and> c \<in> set (V self)"
    if r: "r < length g" and g0: "getitem (g ! r) 0 = Inr lo"
      and res: "max_safe_levelset self accuracy (Some r) g = Some (Inr c, h')" for r g
  proof (cases "g ! r")
    case Nil
    with g0 show ?thesis by (simp add: getitem_def)
  next
    case (Cons a as)
    with g0 have a: "a = lo" by (simp add: getitem_def)
    show ?thesis
    proof (cases as)
      case Nil
      with Cons a assms(3) res show ?thesis
        by (simp add: max_safe_levelset_def line_search_bisection_def getitem_def)
    next
      case (Cons hi rest)
      with \<open>g ! r = a # as\<close> a have gr: "g ! r = lo # hi # rest" by simp
      from max_safe_levelset_feasible[OF assms(1) r gr assms(3)]
      obtain lo' hi' where
        m: "max_safe_levelset self accuracy (Some r) g
             = Some (np_max (filter (\<lambda>v. v \<le> lo') (V self)), g[r := lo' # hi' # rest])"
        and s: "levelset_is_safe self lo' = Inr True"
        by blast
      from m res have "np_max (filter (\<lambda>v. v \<le> lo') (V self)) = Inr c" by simp
      from np_max_filter_safe(1,2)[OF this s] show ?thesis by simp
    qed
  qed
  have safe: "levelset_is_safe self c = Inr True \<and> c \<in> set (V self)"
  proof (cases interval)
    case None
    with assms(2) have lo: "lo = 0" by simp
    from None assms(4) have ne: "V self \<noteq> []"
      by (auto simp: max_safe_levelset_def np_max_Nil)
    let ?g = "h @ [[0, Max (set (V self)) + accuracy]]"
    have "max_safe_levelset self accuracy (Some (length h)) ?g = Some (Inr c, h')"
      using assms(4) None max_safe_levelset_default[OF ne, of accuracy h] by simp
    moreover have "getitem (?g ! length h) 0 = Inr lo" by (simp add: getitem_def lo)
    ultimately show ?thesis by (intro explicit[of "length h" ?g]) simp_all
  next
    case (Some r)
    with assms(2,4) show ?thesis by (intro explicit[of r h]) simp_all
  qed
  then have "levelset_is_safe self c = Inr True" by simp
  then have "length (v_dot_negative self) = length (V self)
       \<and> (\<forall>i<length (V self). V self ! i \<le> c \<longrightarrow> v_dot_negative self ! i)"
    by (simp add: levelset_is_safe_eq split: if_splits)
  with safe show ?thesis by simp
qed

text \<open>
  C2. For a positive accuracy, if the level-set predicate holds at the lower end
  of the interval (zero for the default interval) and \<open>max_safe_levelset\<close> returns a
  value \<open>c\<close>, then no index \<open>i\<close> has \<open>V[i] \<le> c\<close> with \<open>v_dot_negative[i]\<close>
  false; moreover \<open>c\<close> is one of the values of \<open>V\<close>.
\<close>

theorem max_safe_levelset_feasible_safe:
  assumes "0 < accuracy"
    and "case interval of None \<Rightarrow> lo = 0
         | Some r \<Rightarrow> r < length h \<and> getitem (h ! r) 0 = Inr lo"
    and "levelset_is_safe self lo = Inr True"
    and "max_safe_levelset self accuracy interval h = Some (Inr c, h')"
  shows "length (v_dot_negative self) = length (V self)
       \<and> (\<forall>i<length (V self). V self ! i \<le> c \<longrightarrow> v_dot_negative self ! i)
       \<and> levelset_is_safe self c = Inr True \<and> c \<in> set (V self)"
  using assms by (rule max_safe_levelset_safe_aux)

theorem max_safe_levelset_feasible_safe_witness:
  "(0::real) < 1
   \<and> levelset_is_safe (test_engine [True, True, False, False]) 0 = Inr True
   \<and> max_safe_levelset (test_engine [True, True, False, False]) 1 (Some 0) [[0, 4]]
       = Some (Inr 1, [[1, 2]])
   \<and> levelset_is_safe (test_engine [True, True, False, False]) 1 = Inr True
   \<and> 1 \<in> set (V (test_engine [True, True, False, False]))"
proof -
  have r: "max_safe_levelset (test_engine [True, True, False, False]) 1 (Some 0) [[0, 4]]
       = Some (Inr 1, [[1, 2]])"
    by (simp add: max_safe_levelset_def line_search_bisection_def getitem_def setitem_def
      levelset_is_safe_def mask_select_def test_engine_def np_max_def bisection_while.simps)
  have s: "levelset_is_safe (test_engine [True, True, False, False]) 0 = Inr True"
    by (simp add: levelset_is_safe_def mask_select_def test_engine_def)
  have i: "case Some 0 of None \<Rightarrow> 0 = (0::real)
         | Some r \<Rightarrow> r < length [[0, 4::real]] \<and> getitem ([[0, 4::real]] ! r) 0 = Inr 0"
    by (simp add: getitem_def)
  from max_safe_levelset_feasible_safe[OF _ i s r] r s show ?thesis by simp
qed

theorem max_safe_levelset_infeasible_counterexample:
  "max_safe_levelset (test_engine [False, True, True, True]) (1/10) None []
     = Some (Inr 0, [[0, 31/10]])
   \<and> V (test_engine [False, True, True, True]) ! 0 \<le> 0
   \<and> v_dot_negative (test_engine [False, True, True, True]) ! 0 = False"
  by (simp add: max_safe_levelset_def line_search_bisection_def getitem_def alloc_def
      levelset_is_safe_def mask_select_def test_engine_def np_max_def)


text \<open>
  C8. When some point with \<open>V\<close> at most the lower end \<open>lo\<close> of the interval lacks
  \<open>v_dot_negative\<close>, the predicate is false at \<open>lo\<close>, the bisection returns
  Python's \<open>None\<close> (no exception, the store unchanged) for every predicate that is
  false at \<open>lo\<close>, and \<open>max_safe_levelset\<close> returns \<open>0\<close>, for an explicit interval
  and for the default one.
\<close>

theorem infeasible_returns_zero:
  assumes "length (v_dot_negative self) = length (V self)"
    and "i < length (V self)" and "V self ! i \<le> lo" and "\<not> v_dot_negative self ! i"
  shows "levelset_is_safe self lo = Inr False
       \<and> (\<forall>f r rest. h ! r = lo # rest \<and> f lo = Inr False \<longrightarrow>
            line_search_bisection f r accuracy h = Some (Inr None, h))
       \<and> (\<forall>r rest. h ! r = lo # rest \<longrightarrow>
            max_safe_levelset self accuracy (Some r) h = Some (Inr 0, h))
       \<and> (lo = 0 \<longrightarrow>
            max_safe_levelset self accuracy None h
              = Some (Inr 0, h @ [[0, Max (set (V self)) + accuracy]]))"
proof -
  have f: "levelset_is_safe self lo = Inr False"
    using assms by (auto simp: levelset_is_safe_eq)
  have ne: "V self \<noteq> []" using assms(2) by auto
  have "max_safe_levelset self accuracy None h
              = Some (Inr 0, h @ [[0, Max (set (V self)) + accuracy]])" if "lo = 0"
    using f that max_safe_levelset_default[OF ne, of accuracy h]
      max_safe_levelset_infeasible[of "h @ [[0, Max (set (V self)) + accuracy]]" "length h" 0
        "[Max (set (V self)) + accuracy]" self accuracy]
    by simp
  then show ?thesis
    using f by (auto intro: lsb_infeasible max_safe_levelset_infeasible)
qed

theorem infeasible_returns_zero_witness:
  "levelset_is_safe (test_engine [True, False, True, True]) 1 = Inr False
   \<and> line_search_bisection (levelset_is_safe (test_engine [True, False, True, True])) 0 (1/10)
        [[1, 2]] = Some (Inr None, [[1, 2]])
   \<and> max_safe_levelset (test_engine [True, False, True, True]) (1/10) (Some 0) [[1, 2]]
        = Some (Inr 0, [[1, 2]])"
proof -
  have "levelset_is_safe (test_engine [True, False, True, True]) 1 = Inr False"
    by (simp add: levelset_is_safe_def mask_select_def test_engine_def)
  then show ?thesis
    using infeasible_returns_zero[of "test_engine [True, False, True, True]" 1 1 "[[1, 2]]" "1/10"]
    by (simp add: test_engine_def)
qed

text \<open>
  C9. \<open>_levelset_is_safe(c)\<close> is true whenever no grid point has \<open>V \<le> c\<close>.
  Consequently, when every value of \<open>V\<close> is strictly positive and
  \<open>v_dot_negative\<close> is false everywhere, the predicate holds at the lower bound
  \<open>0\<close> of the default interval, the line search returns an interval, and
  \<open>max_safe_levelset\<close> raises \<open>ValueError\<close> from the maximum over an empty
  selection.
\<close>

theorem empty_selection_raises:
  "(length (v_dot_negative self) = length (V self) \<and> (\<forall>v\<in>set (V self). \<not> v \<le> c)
      \<longrightarrow> levelset_is_safe self c = Inr True)
   \<and> (0 < accuracy \<and> V self \<noteq> [] \<and> (\<forall>v\<in>set (V self). 0 < v)
       \<and> v_dot_negative self = replicate (length (V self)) False
      \<longrightarrow> levelset_is_safe self 0 = Inr True
        \<and> (\<exists>h'. line_search_bisection (levelset_is_safe self) (length h) accuracy
                   (h @ [[0, Max (set (V self)) + accuracy]])
                   = Some (Inr (Some (length h)), h')
                \<and> max_safe_levelset self accuracy None h = Some (Inl ValueError, h')))"
proof (intro conjI impI)
  assume "length (v_dot_negative self) = length (V self) \<and> (\<forall>v\<in>set (V self). \<not> v \<le> c)"
  then show "levelset_is_safe self c = Inr True"
    by (auto simp: levelset_is_safe_eq)
next
  assume a: "0 < accuracy \<and> V self \<noteq> [] \<and> (\<forall>v\<in>set (V self). 0 < v)
       \<and> v_dot_negative self = replicate (length (V self)) False"
  then have len: "length (V self) = length (v_dot_negative self)" by (metis length_replicate)
  have allF: "\<not> v_dot_negative self ! i" if "i < length (V self)" for i
    using a that by (metis nth_replicate)
  have pos: "0 < V self ! i" if "i < length (V self)" for i
    using a that nth_mem[of i "V self"] by blast
  then have "\<forall>i<length (V self). V self ! i \<le> 0 \<longrightarrow> v_dot_negative self ! i"
    by (meson not_le)
  then show s0: "levelset_is_safe self 0 = Inr True"
    using len by (simp add: levelset_is_safe_eq)
  let ?g = "h @ [[0, Max (set (V self)) + accuracy]]"
  have "length h < length ?g" and "?g ! length h = 0 # (Max (set (V self)) + accuracy) # []"
    by simp_all
  from max_safe_levelset_feasible[OF _ this s0, of accuracy] a
  obtain lo' hi' where
    l: "line_search_bisection (levelset_is_safe self) (length h) accuracy ?g
          = Some (Inr (Some (length h)), ?g[length h := [lo', hi']])"
    and m: "max_safe_levelset self accuracy (Some (length h)) ?g
          = Some (np_max (filter (\<lambda>v. v \<le> lo') (V self)), ?g[length h := [lo', hi']])"
    and s: "levelset_is_safe self lo' = Inr True"
    by blast
  from s len allF have "\<forall>i<length (V self). \<not> V self ! i \<le> lo'"
    by (auto simp: levelset_is_safe_eq)
  then have "filter (\<lambda>v. v \<le> lo') (V self) = []"
    by (auto simp: filter_empty_conv in_set_conv_nth)
  with m have "max_safe_levelset self accuracy None h
         = Some (Inl ValueError, ?g[length h := [lo', hi']])"
    using a max_safe_levelset_default[of self accuracy h] by (simp add: np_max_Nil)
  with l show "\<exists>h'. line_search_bisection (levelset_is_safe self) (length h) accuracy ?g
                   = Some (Inr (Some (length h)), h')
                \<and> max_safe_levelset self accuracy None h = Some (Inl ValueError, h')"
    by blast
qed

theorem empty_selection_raises_witness:
  "levelset_is_safe (test_engine [False, False, False, False]\<lparr>V := [1, 2, 3, 4]\<rparr>) 0 = Inr True
   \<and> (\<exists>h'. line_search_bisection
               (levelset_is_safe (test_engine [False, False, False, False]\<lparr>V := [1, 2, 3, 4]\<rparr>))
               0 1 [[0, 5]] = Some (Inr (Some 0), h')
          \<and> max_safe_levelset (test_engine [False, False, False, False]\<lparr>V := [1, 2, 3, 4]\<rparr>)
               1 None [] = Some (Inl ValueError, h'))"
  using empty_selection_raises
    [of "test_engine [False, False, False, False]\<lparr>V := [1, 2, 3, 4]\<rparr>" 0 1 "[]"]
  by (simp add: test_engine_def numeral_eq_Suc)

lemma lsb_returned:
  assumes "line_search_bisection (\<lambda>x. Inr (p x)) bound accuracy h = Some (res, h')"
    and "bound < length h" and "h ! bound = lo # hi # rest" and "p lo" and "\<not> p hi"
  shows "\<exists>lo' hi'. res = Inr (Some bound) \<and> h' = h[bound := lo' # hi' # rest]
           \<and> p lo' \<and> \<not> p hi' \<and> hi' - lo' \<le> accuracy"
  using fp_lsb_refined[of "\<lambda>x. x" p bound accuracy h res h' lo hi rest] assms
  by (simp add: line_search_bisection_exact)

lemma max_safe_levelset_returned:
  assumes "max_safe_levelset self accuracy (Some r) h = Some (res, h')"
    and "r < length h" and "h ! r = lo # hi # rest"
    and "levelset_is_safe self lo = Inr True"
  shows "\<exists>lo' hi'.
           line_search_bisection (levelset_is_safe self) r accuracy h
             = Some (Inr (Some r), h')
         \<and> h' = h[r := lo' # hi' # rest]
         \<and> res = np_max (filter (\<lambda>v. v \<le> lo') (V self))
         \<and> levelset_is_safe self lo' = Inr True
         \<and> (levelset_is_safe self hi = Inr True \<and> lo' = hi \<and> hi' = hi
            \<or> levelset_is_safe self hi = Inr False \<and> levelset_is_safe self hi' = Inr False
              \<and> hi' - lo' \<le> accuracy)"
proof -
  from assms(4) have len: "length (V self) = length (v_dot_negative self)"
    by (simp add: levelset_is_safe_eq split: if_splits)
  define p where "p = (\<lambda>c. \<forall>i<length (V self). V self ! i \<le> c \<longrightarrow> v_dot_negative self ! i)"
  have f: "levelset_is_safe self = (\<lambda>c. Inr (p c))"
    unfolding p_def by (rule levelset_is_safe_pure[OF len])
  have plo: "p lo" using assms(4) by (simp add: f)
  have finish: "res = np_max (filter (\<lambda>v. v \<le> a) (V self)) \<and> h' = h[r := a # b # rest]"
    if "line_search_bisection (levelset_is_safe self) r accuracy h
             = Some (Inr (Some r), h[r := a # b # rest])" for a b
    using that assms(1,2)
    by (auto simp: max_safe_levelset_def getitem_def split: sum.splits)
  show ?thesis
  proof (cases "p hi")
    case True
    have l: "line_search_bisection (levelset_is_safe self) r accuracy h
             = Some (Inr (Some r), h[r := hi # hi # rest])"
      using assms(2,3) plo True by (intro lsb_collapsed[of _ _ lo]) (simp_all add: f)
    from finish[OF l] l True show ?thesis by (simp add: f)
  next
    case False
    from assms(1) obtain res0 h0 where
      l: "line_search_bisection (levelset_is_safe self) r accuracy h = Some (res0, h0)"
      by (cases "line_search_bisection (levelset_is_safe self) r accuracy h")
         (auto simp: max_safe_levelset_def)
    from lsb_returned[OF l[unfolded f] assms(2,3) plo False]
    obtain lo' hi' where r: "res0 = Inr (Some r)" "h0 = h[r := lo' # hi' # rest]"
      "p lo'" "\<not> p hi'" "hi' - lo' \<le> accuracy"
      by blast
    from l r(1,2) have l': "line_search_bisection (levelset_is_safe self) r accuracy h
             = Some (Inr (Some r), h[r := lo' # hi' # rest])"
      by simp
    from finish[OF l'] l' r(3-5) False show ?thesis
      unfolding f by (intro exI[of _ lo'] exI[of _ hi']) simp
  qed
qed

lemma max_safe_levelset_safe_returned:
  assumes "case interval of None \<Rightarrow> lo = 0
         | Some r \<Rightarrow> r < length h \<and> getitem (h ! r) 0 = Inr lo"
    and "levelset_is_safe self lo = Inr True"
    and "max_safe_levelset self accuracy interval h = Some (Inr c, h')"
  shows "length (v_dot_negative self) = length (V self)
       \<and> (\<forall>i<length (V self). V self ! i \<le> c \<longrightarrow> v_dot_negative self ! i)
       \<and> levelset_is_safe self c = Inr True \<and> c \<in> set (V self)"
proof -
  have explicit: "levelset_is_safe self c = Inr True \<and> c \<in> set (V self)"
    if r: "r < length g" and g0: "getitem (g ! r) 0 = Inr lo"
      and res: "max_safe_levelset self accuracy (Some r) g = Some (Inr c, h')" for r g
  proof (cases "g ! r")
    case Nil
    with g0 show ?thesis by (simp add: getitem_def)
  next
    case (Cons a as)
    with g0 have a: "a = lo" by (simp add: getitem_def)
    show ?thesis
    proof (cases as)
      case Nil
      with Cons a assms(2) res show ?thesis
        by (simp add: max_safe_levelset_def line_search_bisection_def getitem_def)
    next
      case (Cons hi rest)
      with \<open>g ! r = a # as\<close> a have gr: "g ! r = lo # hi # rest" by simp
      from max_safe_levelset_returned[OF res r gr assms(2)]
      obtain lo' where
        m: "Inr c = np_max (filter (\<lambda>v. v \<le> lo') (V self))"
        and s: "levelset_is_safe self lo' = Inr True"
        by blast
      from np_max_filter_safe(1,2)[OF m[symmetric] s] show ?thesis by simp
    qed
  qed
  have safe: "levelset_is_safe self c = Inr True \<and> c \<in> set (V self)"
  proof (cases interval)
    case None
    with assms(1) have lo: "lo = 0" by simp
    from None assms(3) have ne: "V self \<noteq> []"
      by (auto simp: max_safe_levelset_def np_max_Nil)
    let ?g = "h @ [[0, Max (set (V self)) + accuracy]]"
    have "max_safe_levelset self accuracy (Some (length h)) ?g = Some (Inr c, h')"
      using assms(3) None max_safe_levelset_default[OF ne, of accuracy h] by simp
    moreover have "getitem (?g ! length h) 0 = Inr lo" by (simp add: getitem_def lo)
    ultimately show ?thesis by (intro explicit[of "length h" ?g]) simp_all
  next
    case (Some r)
    with assms(1,3) show ?thesis by (intro explicit[of r h]) simp_all
  qed
  then have "levelset_is_safe self c = Inr True" by simp
  then have "length (v_dot_negative self) = length (V self)
       \<and> (\<forall>i<length (V self). V self ! i \<le> c \<longrightarrow> v_dot_negative self ! i)"
    by (simp add: levelset_is_safe_eq split: if_splits)
  with safe show ?thesis by simp
qed




section \<open>The safety constraint and the refresh cycle\<close>

lemma vec_less_same_length:
  assumes "case thr of Scalar t \<Rightarrow> True | Vector ts \<Rightarrow> length ts = length xs"
  shows "\<exists>r. vec_less xs thr = Inr r \<and> length r = length xs
           \<and> (\<forall>i<length xs. r ! i \<longleftrightarrow>
                 xs ! i < (case thr of Scalar t \<Rightarrow> t | Vector ts \<Rightarrow> ts ! i))"
proof (cases thr)
  case (Scalar t)
  then show ?thesis by simp
next
  case (Vector ts)
  with assms show ?thesis by (simp add: vec_binop_def)
qed

lemma vec_or_same_length:
  assumes "length init = length xs"
  shows "\<exists>r. vec_iop (\<or>) xs (Vector init) = Inr r \<and> length r = length xs
           \<and> (\<forall>i<length xs. r ! i \<longleftrightarrow> xs ! i \<or> init ! i)"
  using assms by simp

text \<open>
  C5. For every policy, when the decrease bound and the threshold are available and the
  threshold and the initial safe set (if any) have the shape of the bound,
  \<open>safety_constraint(policy, include_initial)\<close> returns the boolean array whose entry
  \<open>i\<close> is true iff the decrease bound at \<open>i\<close> is strictly below the threshold, or
  \<open>include_initial\<close> is set and \<open>i\<close> is in the initial safe set; so a point of the
  initial safe set is marked true even when its bound fails the comparison.
\<close>

theorem safety_constraint_spec:
  assumes "v_decrease_bound self (discretization self)
             (dynamics self (discretization self) pol) = Inr bnd"
    and "threshold self = Inr thr"
    and "case thr of Scalar t \<Rightarrow> True | Vector ts \<Rightarrow> length ts = length bnd"
    and "case initial_safe_set self of None \<Rightarrow> True | Some init \<Rightarrow> length init = length bnd"
  shows "\<exists>r. safety_constraint self pol include_initial = Inr r
           \<and> length r = length bnd
           \<and> (\<forall>i<length bnd.
                 r ! i \<longleftrightarrow>
                   bnd ! i < (case thr of Scalar t \<Rightarrow> t | Vector ts \<Rightarrow> ts ! i)
                   \<or> include_initial
                     \<and> (case initial_safe_set self of None \<Rightarrow> False | Some init \<Rightarrow> init ! i))"
proof -
  from vec_less_same_length[OF assms(3)] obtain vdn where
    vdn: "vec_less bnd thr = Inr vdn" "length vdn = length bnd"
      "\<forall>i<length bnd. vdn ! i \<longleftrightarrow>
          bnd ! i < (case thr of Scalar t \<Rightarrow> t | Vector ts \<Rightarrow> ts ! i)"
    by blast
  show ?thesis
  proof (cases "initial_safe_set self")
    case None
    then have "safety_constraint self pol include_initial = Inr vdn"
      using assms(1,2) vdn(1) by (simp add: safety_constraint_def)
    with vdn(2,3) None show ?thesis by simp
  next
    case (Some init)
    with assms(4) have len: "length init = length vdn" by (simp add: vdn(2))
    show ?thesis
    proof (cases include_initial)
      case True
      from vec_or_same_length[OF len] obtain r where
        r: "vec_iop (\<or>) vdn (Vector init) = Inr r" "length r = length vdn"
          "\<forall>i<length vdn. r ! i \<longleftrightarrow> vdn ! i \<or> init ! i"
        by blast
      have "safety_constraint self pol include_initial = Inr r"
        using assms(1,2) vdn(1) Some True r(1) by (simp add: safety_constraint_def)
      with r(2,3) vdn(2,3) Some True show ?thesis by simp
    next
      case False
      then have "safety_constraint self pol include_initial = Inr vdn"
        using assms(1,2) vdn(1) Some by (simp add: safety_constraint_def)
      with vdn(2,3) Some False show ?thesis by simp
    qed
  qed
qed

theorem safety_constraint_spec_witness:
  "\<exists>r. safety_constraint (update_test_engine (Some [False, False, True, False]))
         [[], [], [], []] True = Inr r
       \<and> length r = length [-1/2, -1/5, 0, -1 :: real]
       \<and> (\<forall>i<length [-1/2, -1/5, 0, -1 :: real].
             r ! i \<longleftrightarrow>
               [-1/2, -1/5, 0, -1 :: real] ! i < (case Scalar (-3/20) of Scalar t \<Rightarrow> t | Vector ts \<Rightarrow> ts ! i)
               \<or> True
                 \<and> (case initial_safe_set (update_test_engine (Some [False, False, True, False]))
                    of None \<Rightarrow> False | Some init \<Rightarrow> init ! i))"
proof -
  have b: "v_decrease_bound (update_test_engine (Some [False, False, True, False]))
             (discretization (update_test_engine (Some [False, False, True, False])))
             (dynamics (update_test_engine (Some [False, False, True, False]))
                (discretization (update_test_engine (Some [False, False, True, False])))
                [[], [], [], []])
           = Inr [-1/2, -1/5, 0, -1]"
    by (simp add: v_decrease_bound_def v_decrease_confidence_def update_test_engine_def
        test_engine_def)
  have t: "threshold (update_test_engine (Some [False, False, True, False]))
             = Inr (Scalar (-3/20))"
    by (simp add: threshold_def update_test_engine_def test_engine_def)
  show ?thesis
    by (rule safety_constraint_spec[OF b t])
       (simp_all add: update_test_engine_def test_engine_def)
qed

lemma test_update_safety_constraint:
  "safety_constraint (update_test_engine None) [[], [], [], []] True
     = Inr [True, True, False, True]"
  "safety_constraint (update_test_engine (Some [False, False, True, False])) [[], [], [], []] True
     = Inr [True, True, True, True]"
  by (simp_all add: safety_constraint_def v_decrease_bound_def v_decrease_confidence_def
      threshold_def update_test_engine_def test_engine_def)

lemma column0_nonempty_rows:
  assumes "\<forall>row\<in>set m. row \<noteq> []"
  shows "column0 m = Inr (map hd m)"
  using assms by (simp add: column0_def list_ex_iff)

lemma nd_scale_sums:
  assumes "case lv of Scalar l \<Rightarrow> True | Vector ls \<Rightarrow> length ls = length eb"
  shows "\<exists>err. nd_binop (*) lv (Vector (map sum_list eb)) = Inr (Vector err)
           \<and> length err = length eb
           \<and> (\<forall>i<length eb.
                 err ! i = (case lv of Scalar l \<Rightarrow> l | Vector ls \<Rightarrow> ls ! i) * sum_list (eb ! i))"
proof (cases lv)
  case (Scalar l)
  then show ?thesis by simp
next
  case (Vector ls)
  with assms show ?thesis by (simp add: vec_binop_def)
qed

text \<open>
  C6. For the discrete-time class, with a Lyapunov function that returns one value per
  point, \<open>v_decrease_confidence(states, next_states)\<close> returns the mean
  \<open>lyapunov_function(next_states) - lyapunov_function(states)\<close> per point; for a
  plain array of next states the error is exactly the scalar \<open>0\<close>, and for a pair of
  mean and error bounds it is \<open>lipschitz_lyapunov\<close> times the per-point sum of the
  error bounds over the dimensions.
\<close>

theorem discrete_v_decrease_confidence_spec:
  assumes "cls self = Discrete lf lv"
    and "\<forall>row\<in>set (lyapunov_function self ns). row \<noteq> []"
    and "\<forall>row\<in>set (lyapunov_function self states). row \<noteq> []"
    and "length (lyapunov_function self ns) = length (lyapunov_function self states)"
  shows "(\<exists>mean. v_decrease_confidence self states (Deterministic ns) = Inr (mean, Scalar 0)
            \<and> length mean = length (lyapunov_function self states)
            \<and> (\<forall>i<length mean.
                  mean ! i = hd (lyapunov_function self ns ! i)
                             - hd (lyapunov_function self states ! i)))
       \<and> ((case lv of Scalar l \<Rightarrow> True | Vector ls \<Rightarrow> length ls = length eb) \<longrightarrow>
           (\<exists>mean err.
              v_decrease_confidence self states (Uncertain ns eb) = Inr (mean, Vector err)
            \<and> length mean = length (lyapunov_function self states)
            \<and> (\<forall>i<length mean.
                  mean ! i = hd (lyapunov_function self ns ! i)
                             - hd (lyapunov_function self states ! i))
            \<and> length err = length eb
            \<and> (\<forall>i<length eb.
                  err ! i = (case lv of Scalar l \<Rightarrow> l | Vector ls \<Rightarrow> ls ! i)
                            * sum_list (eb ! i))))"
proof -
  let ?mean = "map2 (-) (map hd (lyapunov_function self ns))
                 (map hd (lyapunov_function self states))"
  have sub: "vec_binop (-) (map hd (lyapunov_function self ns))
               (map hd (lyapunov_function self states)) = Inr ?mean"
    using assms(4) by (simp add: vec_binop_def)
  have len: "length ?mean = length (lyapunov_function self states)"
    using assms(4) by simp
  have nth: "\<forall>i<length ?mean. ?mean ! i = hd (lyapunov_function self ns ! i)
                             - hd (lyapunov_function self states ! i)"
    using assms(4) by simp
  have det: "v_decrease_confidence self states (Deterministic ns) = Inr (?mean, Scalar 0)"
    using assms(1) sub
    by (simp add: v_decrease_confidence_def discrete_v_decrease_confidence_def
        column0_nonempty_rows[OF assms(2)] column0_nonempty_rows[OF assms(3)])
  have unc: "\<exists>err. v_decrease_confidence self states (Uncertain ns eb) = Inr (?mean, Vector err)
            \<and> length err = length eb
            \<and> (\<forall>i<length eb.
                  err ! i = (case lv of Scalar l \<Rightarrow> l | Vector ls \<Rightarrow> ls ! i)
                            * sum_list (eb ! i))"
    if "case lv of Scalar l \<Rightarrow> True | Vector ls \<Rightarrow> length ls = length eb"
  proof -
    from nd_scale_sums[OF that] obtain err where
      e: "nd_binop (*) lv (Vector (map sum_list eb)) = Inr (Vector err)"
        "length err = length eb"
        "\<forall>i<length eb.
           err ! i = (case lv of Scalar l \<Rightarrow> l | Vector ls \<Rightarrow> ls ! i) * sum_list (eb ! i)"
      by blast
    have "v_decrease_confidence self states (Uncertain ns eb) = Inr (?mean, Vector err)"
      using assms(1) sub e(1)
      by (simp add: v_decrease_confidence_def discrete_v_decrease_confidence_def
          column0_nonempty_rows[OF assms(2)] column0_nonempty_rows[OF assms(3)])
    with e(2,3) show ?thesis by blast
  qed
  show ?thesis
  proof (intro conjI impI)
    show "\<exists>mean. v_decrease_confidence self states (Deterministic ns) = Inr (mean, Scalar 0)
            \<and> length mean = length (lyapunov_function self states)
            \<and> (\<forall>i<length mean.
                  mean ! i = hd (lyapunov_function self ns ! i)
                             - hd (lyapunov_function self states ! i))"
      using det len nth by blast
  next
    assume "case lv of Scalar l \<Rightarrow> True | Vector ls \<Rightarrow> length ls = length eb"
    from unc[OF this] len nth
    show "\<exists>mean err.
              v_decrease_confidence self states (Uncertain ns eb) = Inr (mean, Vector err)
            \<and> length mean = length (lyapunov_function self states)
            \<and> (\<forall>i<length mean.
                  mean ! i = hd (lyapunov_function self ns ! i)
                             - hd (lyapunov_function self states ! i))
            \<and> length err = length eb
            \<and> (\<forall>i<length eb.
                  err ! i = (case lv of Scalar l \<Rightarrow> l | Vector ls \<Rightarrow> ls ! i)
                            * sum_list (eb ! i))"
      by blast
  qed
qed

lemma test_discrete:
  "threshold discrete_test_engine = Inr (Scalar (-21/100))"
  "v_decrease_confidence discrete_test_engine [] (Deterministic [[1], [2], [3]])
     = Inr ([0, 0, 0], Scalar 0)"
  "v_decrease_confidence discrete_test_engine []
     (Uncertain [[1], [2], [3]] [[1], [2], [3]])
     = Inr ([0, 0, 0], Vector [3/10, 6/10, 9/10])"
  by (simp_all add: threshold_def discrete_threshold_def v_decrease_confidence_def
      discrete_v_decrease_confidence_def column0_def vec_binop_def discrete_test_engine_def)

theorem discrete_v_decrease_confidence_spec_witness:
  "(\<exists>mean. v_decrease_confidence discrete_test_engine [[1], [2], [3]]
             (Deterministic [[1], [2], [3]]) = Inr (mean, Scalar 0)
          \<and> length mean = length (lyapunov_function discrete_test_engine [[1], [2], [3]])
          \<and> (\<forall>i<length mean.
                mean ! i = hd (lyapunov_function discrete_test_engine [[1], [2], [3]] ! i)
                           - hd (lyapunov_function discrete_test_engine [[1], [2], [3]] ! i)))
   \<and> (\<exists>mean err.
         v_decrease_confidence discrete_test_engine [[1], [2], [3]]
           (Uncertain [[1], [2], [3]] [[1, 1], [2, 0], [3, 4]]) = Inr (mean, Vector err)
       \<and> length mean = length (lyapunov_function discrete_test_engine [[1], [2], [3]])
       \<and> (\<forall>i<length mean.
             mean ! i = hd (lyapunov_function discrete_test_engine [[1], [2], [3]] ! i)
                        - hd (lyapunov_function discrete_test_engine [[1], [2], [3]] ! i))
       \<and> length err = length [[1, 1], [2, 0], [3, 4 :: real]]
       \<and> (\<forall>i<length [[1, 1], [2, 0], [3, 4 :: real]].
             err ! i = (case Scalar (3/10) of Scalar l \<Rightarrow> l | Vector ls \<Rightarrow> ls ! i)
                       * sum_list ([[1, 1], [2, 0], [3, 4]] ! i)))"
proof -
  have a: "cls discrete_test_engine = Discrete (Scalar (2/5)) (Scalar (3/10))"
    by (simp add: discrete_test_engine_def)
  have b: "\<forall>row\<in>set (lyapunov_function discrete_test_engine [[1], [2], [3]]). row \<noteq> []"
    by (simp add: discrete_test_engine_def)
  have c: "length (lyapunov_function discrete_test_engine [[1], [2], [3]])
             = length (lyapunov_function discrete_test_engine [[1], [2], [3]])"
    by simp
  note th = discrete_v_decrease_confidence_spec
              [OF a b b c, of "[[1, 1], [2, 0], [3, 4]]"]
  have p: "case Scalar (3/10 :: real) of Scalar l \<Rightarrow> True
           | Vector ls \<Rightarrow> length ls = length [[1, 1], [2, 0], [3, 4 :: real]]"
    by simp
  from conjunct1[OF th] mp[OF conjunct2[OF th] p] show ?thesis by (rule conjI)
qed

lemma vec_or_initial:
  assumes "vec_iop (\<or>) xs (Vector init) = Inr r"
    and "i < length init" and "i < length r" and "init ! i"
  shows "r ! i"
proof (cases "length init = length xs")
  case True
  with assms show ?thesis by auto
next
  case False
  with assms(1) have one: "length init = 1" and r: "r = map (\<lambda>x. x \<or> hd init) xs"
    by (auto split: if_splits)
  from one assms(2) have "i = 0" by simp
  moreover from one have "hd init = init ! 0" by (cases init) simp_all
  ultimately show ?thesis using assms(3,4) r by simp
qed

lemma safety_constraint_initial:
  assumes "safety_constraint self pol True = Inr r"
    and "initial_safe_set self = Some init"
    and "i < length init" and "i < length r" and "init ! i"
  shows "r ! i"
proof -
  from assms(1,2) obtain vdn where "vec_iop (\<or>) vdn (Vector init) = Inr r"
    by (auto simp: safety_constraint_def Let_def split: sum.splits)
  from vec_or_initial[OF this assms(3,4,5)] show ?thesis .
qed

lemma levelset_is_safe_cong:
  assumes "V a = V b" and "v_dot_negative a = v_dot_negative b"
  shows "levelset_is_safe a = levelset_is_safe b"
  using assms by (intro ext) (simp add: levelset_is_safe_def)

lemma update_safe_set_Inr:
  assumes "update_safe_set self accuracy interval h = Some (Inr (), self', h')"
  shows "\<exists>vdn c. safety_constraint self (policy self) True = Inr vdn
           \<and> max_safe_levelset (self\<lparr>v_dot_negative := vdn\<rparr>) accuracy interval h
                = Some (Inr c, h')
           \<and> self' = self\<lparr>v_dot_negative := vdn, cmax := c,
                            safe_set := map (\<lambda>v. v \<le> c) (V self)\<rparr>"
  using assms
  by (auto simp: update_safe_set_def Let_def split: sum.splits option.splits)

text \<open>
  C1. After a call of \<open>update_safe_set(accuracy, interval)\<close> that returns, \<open>V\<close> is
  unchanged, \<open>safe_set = (V \<le> cmax)\<close>, every point of the initial safe set (when one
  was supplied) has \<open>v_dot_negative\<close> true whatever its decrease bound, and, provided
  the level-set predicate holds at the lower end of the interval (zero for the default
  interval), every point with \<open>V[i] \<le> cmax\<close> has \<open>v_dot_negative[i]\<close> true.
\<close>

theorem update_safe_set_invariant:
  assumes "case interval of None \<Rightarrow> lo = 0
         | Some r \<Rightarrow> r < length h \<and> getitem (h ! r) 0 = Inr lo"
    and "update_safe_set self accuracy interval h = Some (Inr (), self', h')"
  shows "V self' = V self
       \<and> safe_set self' = map (\<lambda>v. v \<le> cmax self') (V self')
       \<and> (\<forall>init i. initial_safe_set self = Some init \<and> i < length init
              \<and> i < length (v_dot_negative self') \<and> init ! i
              \<longrightarrow> v_dot_negative self' ! i)
       \<and> (levelset_is_safe self' lo = Inr True \<longrightarrow>
            (\<forall>i<length (V self'). V self' ! i \<le> cmax self' \<longrightarrow> v_dot_negative self' ! i))"
proof -
  from update_safe_set_Inr[OF assms(2)] obtain vdn c where
    sc: "safety_constraint self (policy self) True = Inr vdn"
    and m: "max_safe_levelset (self\<lparr>v_dot_negative := vdn\<rparr>) accuracy interval h
              = Some (Inr c, h')"
    and s: "self' = self\<lparr>v_dot_negative := vdn, cmax := c,
                          safe_set := map (\<lambda>v. v \<le> c) (V self)\<rparr>"
    by blast
  let ?s1 = "self\<lparr>v_dot_negative := vdn\<rparr>"
  have eq: "levelset_is_safe self' = levelset_is_safe ?s1"
    by (rule levelset_is_safe_cong) (simp_all add: s)
  have "\<forall>i<length (V self'). V self' ! i \<le> cmax self' \<longrightarrow> v_dot_negative self' ! i"
    if "levelset_is_safe self' lo = Inr True"
  proof -
    from that have "levelset_is_safe ?s1 lo = Inr True" by (simp add: eq)
    from max_safe_levelset_safe_returned[OF assms(1) this m]
    show ?thesis by (simp add: s)
  qed
  moreover have "v_dot_negative self' ! i"
    if "initial_safe_set self = Some init" "i < length init"
      "i < length (v_dot_negative self')" "init ! i" for init i
    using safety_constraint_initial[OF sc that(1,2) _ that(4)] that(3) by (simp add: s)
  ultimately show ?thesis by (simp add: s)
qed

lemma test_initial_set_engine:
  "update_safe_set initial_set_engine 1 (Some 0) [[0, 4]]
     = Some (Inr (),
         initial_set_engine
           \<lparr>v_dot_negative := [True, True, True, False], cmax := 2,
            safe_set := [True, True, True, False]\<rparr>, [[2, 3]])"
  by (simp add: update_safe_set_def safety_constraint_def v_decrease_bound_def
        v_decrease_confidence_def threshold_def initial_set_engine_def test_engine_def
        max_safe_levelset_def line_search_bisection_def getitem_def setitem_def
        levelset_is_safe_def mask_select_def np_max_def bisection_while.simps)

theorem update_safe_set_invariant_witness:
  "update_safe_set initial_set_engine 1 (Some 0) [[0, 4]]
     = Some (Inr (),
         initial_set_engine
           \<lparr>v_dot_negative := [True, True, True, False], cmax := 2,
            safe_set := [True, True, True, False]\<rparr>, [[2, 3]])
   \<and> initial_safe_set initial_set_engine = Some [False, True, False, False]
   \<and> levelset_is_safe (initial_set_engine
           \<lparr>v_dot_negative := [True, True, True, False], cmax := 2,
            safe_set := [True, True, True, False]\<rparr>) 0 = Inr True
   \<and> V (initial_set_engine
           \<lparr>v_dot_negative := [True, True, True, False], cmax := 2,
            safe_set := [True, True, True, False]\<rparr>) = V initial_set_engine
   \<and> safe_set (initial_set_engine
           \<lparr>v_dot_negative := [True, True, True, False], cmax := 2,
            safe_set := [True, True, True, False]\<rparr>)
       = map (\<lambda>v. v \<le> cmax (initial_set_engine
           \<lparr>v_dot_negative := [True, True, True, False], cmax := 2,
            safe_set := [True, True, True, False]\<rparr>)) (V (initial_set_engine
           \<lparr>v_dot_negative := [True, True, True, False], cmax := 2,
            safe_set := [True, True, True, False]\<rparr>))
   \<and> v_dot_negative (initial_set_engine
           \<lparr>v_dot_negative := [True, True, True, False], cmax := 2,
            safe_set := [True, True, True, False]\<rparr>) ! 1"
proof -
  let ?s = "initial_set_engine
           \<lparr>v_dot_negative := [True, True, True, False], cmax := 2,
            safe_set := [True, True, True, False]\<rparr>"
  have i: "case Some 0 of None \<Rightarrow> 0 = (0::real)
         | Some r \<Rightarrow> r < length [[0, 4::real]] \<and> getitem ([[0, 4::real]] ! r) 0 = Inr 0"
    by (simp add: getitem_def)
  note th = update_safe_set_invariant[OF i test_initial_set_engine]
  have init: "initial_safe_set initial_set_engine = Some [False, True, False, False]"
    by (simp add: initial_set_engine_def test_engine_def)
  have l: "levelset_is_safe ?s 0 = Inr True"
    by (simp add: levelset_is_safe_def mask_select_def initial_set_engine_def test_engine_def)
  have "initial_safe_set initial_set_engine = Some [False, True, False, False]
          \<and> 1 < length [False, True, False, False]
          \<and> 1 < length (v_dot_negative ?s) \<and> [False, True, False, False] ! 1"
    using init by simp
  with th have v: "v_dot_negative ?s ! 1" by blast
  from th have "V ?s = V initial_set_engine"
    and "safe_set ?s = map (\<lambda>v. v \<le> cmax ?s) (V ?s)"
    by blast+
  with test_initial_set_engine init l v show ?thesis by blast
qed

theorem update_safe_set_infeasible_counterexample:
  "update_safe_set two_point_engine (1/10) None []
     = Some (Inr (), two_point_engine\<lparr>safe_set := [True, False]\<rparr>, [[0, 11/10]])
   \<and> V (two_point_engine\<lparr>safe_set := [True, False]\<rparr>) ! 0
       \<le> cmax (two_point_engine\<lparr>safe_set := [True, False]\<rparr>)
   \<and> v_dot_negative (two_point_engine\<lparr>safe_set := [True, False]\<rparr>) ! 0 = False"
  by (simp add: update_safe_set_def safety_constraint_def v_decrease_bound_def
        v_decrease_confidence_def discrete_v_decrease_confidence_def threshold_def
        discrete_threshold_def column0_def vec_binop_def two_point_engine_def alloc_def
        max_safe_levelset_def line_search_bisection_def getitem_def
        levelset_is_safe_def mask_select_def np_max_def)

section \<open>The smallest boundary value is the minimum over the faces\<close>

lemma upt_0_2: "[0..<2] = [0, 1]"
  by (simp add: numeral_eq_Suc)

lemma upt_0_3: "[0..<3] = [0, 1, 2]"
  by (simp add: numeral_eq_Suc)

lemma test_grid:
  "GridWorld [(-3/2, 1), (-1, 3/2)] [3, 3]
     = \<lparr>ndim = 2, discrete_points = [[-3/2, -1/4, 1], [-1, 1/4, 3/2]]\<rparr>"
  by (simp add: GridWorld_def linspace_def upt_0_3)

lemma test_smallest_boundary_value:
  "smallest_boundary_value (map (\<lambda>x. 2 * sum_list (map abs x)))
     (GridWorld [(-3/2, 1), (-1, 3/2)] [3, 3]) = Inr (Finite (5/2))"
  unfolding test_grid
  by (simp add: smallest_boundary_value_def reduce_min_def upt_0_2)

lemma reduce_min_map:
  assumes "ps \<noteq> []"
  shows "reduce_min (map g ps) = Finite (Min (g ` set ps))"
proof (cases ps)
  case Nil
  with assms show ?thesis by simp
next
  case (Cons p rest)
  then show ?thesis
    using Min.set_eq_fold[of "g p" "map g rest"] by (simp add: reduce_min_def)
qed

lemma product_lists_nonempty:
  assumes "\<forall>xs\<in>set xss. xs \<noteq> []"
  shows "product_lists xss \<noteq> []"
  using assms
proof (induction xss)
  case Nil
  then show ?case by simp
next
  case (Cons xs xss)
  then obtain x rest where xs: "xs = x # rest" by (cases xs) auto
  from Cons have "product_lists xss \<noteq> []" by simp
  then show ?case by (simp add: xs)
qed

lemma face_set:
  assumes "i < length axes"
  shows "set (product_lists (axes[i := [a, b]]))
           = {p. length p = length axes \<and> p ! i \<in> {a, b}
                 \<and> (\<forall>j<length axes. j \<noteq> i \<longrightarrow> p ! j \<in> set (axes ! j))}"
proof -
  have "list_all2 (\<lambda>x ys. x \<in> set ys) p (axes[i := [a, b]])
          \<longleftrightarrow> length p = length axes \<and> p ! i \<in> {a, b}
                 \<and> (\<forall>j<length axes. j \<noteq> i \<longrightarrow> p ! j \<in> set (axes ! j))" for p
    using assms by (auto simp: list_all2_conv_all_nth nth_list_update)
  then show ?thesis by (simp add: product_lists_set)
qed

lemma boundary_loop_min:
  assumes "\<forall>i\<in>set axes. i < length (discrete_points d)"
    and "\<forall>xs\<in>set (discrete_points d). xs \<noteq> []"
    and "finite A" and "A \<noteq> {}"
  shows "boundary_loop (map g) d axes (Finite (Min A))
           = Inr (Finite (Min (A \<union> (\<Union>i\<in>set axes. g ` set (product_lists
                ((discrete_points d)
                   [i := [hd (discrete_points d ! i), last (discrete_points d ! i)]]))))))"
  using assms
proof (induction axes arbitrary: A)
  case Nil
  then show ?case by simp
next
  case (Cons i axes)
  let ?tmp = "(discrete_points d)
                [i := [hd (discrete_points d ! i), last (discrete_points d ! i)]]"
  let ?F = "g ` set (product_lists ?tmp)"
  from Cons.prems have i: "i < length (discrete_points d)" by simp
  with Cons.prems have ne: "discrete_points d ! i \<noteq> []" by simp
  have "\<forall>xs\<in>set ?tmp. xs \<noteq> []"
    using Cons.prems(2) by (auto dest!: set_update_subset_insert[THEN subsetD])
  then have pne: "product_lists ?tmp \<noteq> []" by (rule product_lists_nonempty)
  then have F: "finite ?F" "?F \<noteq> {}" by simp_all
  have step: "xmin (Finite (Min A)) (reduce_min (map g (product_lists ?tmp)))
                = Finite (Min (A \<union> ?F))"
    using Cons.prems(3,4) F by (simp add: reduce_min_map[OF pne] Min_Un)
  have "boundary_loop (map g) d (i # axes) (Finite (Min A))
          = boundary_loop (map g) d axes (Finite (Min (A \<union> ?F)))"
    using i ne step by (simp add: Let_def)
  also have "\<dots> = Inr (Finite (Min ((A \<union> ?F) \<union> (\<Union>i\<in>set axes. g ` set (product_lists
                ((discrete_points d)
                   [i := [hd (discrete_points d ! i), last (discrete_points d ! i)]]))))))"
    using Cons.prems F by (intro Cons.IH) simp_all
  finally show ?case by (simp add: Un_assoc)
qed

lemma smallest_boundary_value_faces:
  assumes "ndim d = length (discrete_points d)" and "0 < ndim d"
    and "\<forall>xs\<in>set (discrete_points d). xs \<noteq> []"
  shows "smallest_boundary_value (map g) d
           = Inr (Finite (Min (\<Union>i<ndim d. g ` set (product_lists
                ((discrete_points d)
                   [i := [hd (discrete_points d ! i), last (discrete_points d ! i)]])))))"
proof -
  let ?F = "\<lambda>i. g ` set (product_lists
                ((discrete_points d)
                   [i := [hd (discrete_points d ! i), last (discrete_points d ! i)]]))"
  let ?tmp = "(discrete_points d)
                [0 := [hd (discrete_points d ! 0), last (discrete_points d ! 0)]]"
  from assms have i: "0 < length (discrete_points d)" by simp
  with assms(3) have ne: "discrete_points d ! 0 \<noteq> []" by simp
  have "\<forall>xs\<in>set ?tmp. xs \<noteq> []"
    using assms(3) by (auto dest!: set_update_subset_insert[THEN subsetD])
  then have pne: "product_lists ?tmp \<noteq> []" by (rule product_lists_nonempty)
  then have F: "finite (?F 0)" "?F 0 \<noteq> {}" by simp_all
  have upt: "[0..<ndim d] = 0 # [1..<ndim d]"
    using assms(2) by (simp add: upt_conv_Cons)
  have "smallest_boundary_value (map g) d
          = boundary_loop (map g) d [1..<ndim d] (Finite (Min (?F 0)))"
    using i ne by (simp add: smallest_boundary_value_def upt Let_def reduce_min_map[OF pne])
  also have "\<dots> = Inr (Finite (Min (?F 0 \<union> (\<Union>i\<in>set [1..<ndim d]. ?F i))))"
    using assms(1,3) F by (intro boundary_loop_min) simp_all
  also have "?F 0 \<union> (\<Union>i\<in>set [1..<ndim d]. ?F i) = (\<Union>i<ndim d. ?F i)"
  proof -
    have "{..<ndim d} = insert 0 (set [1..<ndim d])" using assms(2) by auto
    then show ?thesis by simp
  qed
  finally show ?thesis .
qed

text \<open>
  C7. For a function applied point by point and a grid with at least one axis, every axis
  non-empty, \<open>smallest_boundary_value\<close> returns the minimum of the function over the
  union, across the axes \<open>i\<close>, of the points whose coordinate \<open>i\<close> is the first or
  the last sample of axis \<open>i\<close> and whose other coordinates range over the samples of
  their axes. On the grid with three evenly spaced samples per axis spanning
  \<open>[-1.5, 1]\<close> and \<open>[-1, 1.5]\<close>, with \<open>f(x) = 2 * sum |x|\<close>, the result is \<open>2.5\<close>.
\<close>

theorem smallest_boundary_value_spec:
  "(ndim d = length (discrete_points d) \<and> 0 < ndim d
      \<and> (\<forall>xs\<in>set (discrete_points d). xs \<noteq> [])
    \<longrightarrow> smallest_boundary_value (map g) d
          = Inr (Finite (Min (g ` (\<Union>i<ndim d.
               {p. length p = ndim d
                   \<and> p ! i \<in> {hd (discrete_points d ! i), last (discrete_points d ! i)}
                   \<and> (\<forall>j<ndim d. j \<noteq> i \<longrightarrow> p ! j \<in> set (discrete_points d ! j))})))))
   \<and> smallest_boundary_value (map (\<lambda>x. 2 * sum_list (map abs x)))
        (GridWorld [(-3/2, 1), (-1, 3/2)] [3, 3]) = Inr (Finite (5/2))"
proof (intro conjI impI)
  assume a: "ndim d = length (discrete_points d) \<and> 0 < ndim d
      \<and> (\<forall>xs\<in>set (discrete_points d). xs \<noteq> [])"
  have eq: "g ` (\<Union>i<ndim d.
               {p. length p = ndim d
                   \<and> p ! i \<in> {hd (discrete_points d ! i), last (discrete_points d ! i)}
                   \<and> (\<forall>j<ndim d. j \<noteq> i \<longrightarrow> p ! j \<in> set (discrete_points d ! j))})
        = (\<Union>i<ndim d. g ` set (product_lists
                ((discrete_points d)
                   [i := [hd (discrete_points d ! i), last (discrete_points d ! i)]])))"
    using a by (simp add: face_set image_UN)
  from a have 1: "ndim d = length (discrete_points d)" and 2: "0 < ndim d"
    and 3: "\<forall>xs\<in>set (discrete_points d). xs \<noteq> []"
    by blast+
  show "smallest_boundary_value (map g) d
          = Inr (Finite (Min (g ` (\<Union>i<ndim d.
               {p. length p = ndim d
                   \<and> p ! i \<in> {hd (discrete_points d ! i), last (discrete_points d ! i)}
                   \<and> (\<forall>j<ndim d. j \<noteq> i \<longrightarrow> p ! j \<in> set (discrete_points d ! j))}))))"
    unfolding eq by (rule smallest_boundary_value_faces[OF 1 2 3])
next
  show "smallest_boundary_value (map (\<lambda>x. 2 * sum_list (map abs x)))
        (GridWorld [(-3/2, 1), (-1, 3/2)] [3, 3]) = Inr (Finite (5/2))"
    by (rule test_smallest_boundary_value)
qed

theorem smallest_boundary_value_spec_witness:
  "smallest_boundary_value (map (\<lambda>x. 2 * sum_list (map abs x)))
     \<lparr>ndim = 2, discrete_points = [[-3/2, -1/4, 1], [-1, 1/4, 3/2]]\<rparr>
     = Inr (Finite (Min ((\<lambda>x. 2 * sum_list (map abs x)) ` (\<Union>i<ndim \<lparr>ndim = 2, discrete_points = [[-3/2, -1/4, 1], [-1, 1/4, 3/2]]\<rparr>.
         {p. length p = ndim \<lparr>ndim = 2, discrete_points = [[-3/2, -1/4, 1], [-1, 1/4, 3/2]]\<rparr>
             \<and> p ! i \<in> {hd (discrete_points \<lparr>ndim = 2, discrete_points = [[-3/2, -1/4, 1], [-1, 1/4, 3/2]]\<rparr> ! i),
                         last (discrete_points \<lparr>ndim = 2, discrete_points = [[-3/2, -1/4, 1], [-1, 1/4, 3/2]]\<rparr> ! i)}
             \<and> (\<forall>j<ndim \<lparr>ndim = 2, discrete_points = [[-3/2, -1/4, 1], [-1, 1/4, 3/2]]\<rparr>.
                   j \<noteq> i \<longrightarrow> p ! j \<in> set (discrete_points \<lparr>ndim = 2, discrete_points = [[-3/2, -1/4, 1], [-1, 1/4, 3/2]]\<rparr> ! j))}))))"
proof -
  let ?d = "\<lparr>ndim = 2, discrete_points = [[-3/2, -1/4, 1], [-1, 1/4, 3/2 :: real]]\<rparr>"
  have p: "ndim ?d = length (discrete_points ?d) \<and> 0 < ndim ?d
      \<and> (\<forall>xs\<in>set (discrete_points ?d). xs \<noteq> [])"
    by simp
  from mp[OF conjunct1[OF smallest_boundary_value_spec[of ?d]] p] show ?thesis .
qed

end
